theory Spec2Isabelle
  imports Complex_Main "HOL-Library.AList" "HOL-Library.Word" "HOL-Library.Log_Nat"
begin

unbundle bit_operations_syntax

section \<open>JavaScript values, errors and objects\<close>

text \<open>
  The values the formatter handles. A number is a rational: the formatter only produces
  integers of the safe range and their halves, on which double arithmetic is exact
  (floating-point rounding is not part of the model). \<open>BigNum\<close> is an
  arbitrary-precision integer object of the bignumber library. \<open>Obj\<close> is a plain object
  as the ordered list of its own properties; it is used for objects that are only read
  or freshly built. \<open>Ref\<close> is a reference to an object of the store, used for the one
  object the formatter writes to (the argument of \<open>transactionResponse\<close>).
\<close>

datatype jsval =
    Undefined
  | Null
  | Boolean bool
  | Num rat
  | Str string
  | BigNum int
  | Arr "jsval list"
  | Obj "(string \<times> jsval) list"
  | Ref nat

type_synonym object = "(string \<times> jsval) list"

type_synonym store = "nat \<Rightarrow> object"

text \<open>
  A thrown Error object: its message, the offending argument when the logger's
  \<open>throwArgumentError\<close> built it, and the two annotations \<open>Formatter.check\<close> writes.
\<close>

record error =
  reason :: string
  argument :: "jsval option"
  checkKey :: "string option"
  checkValue :: "jsval option"

definition Error :: "string \<Rightarrow> error" where
  "Error msg = \<lparr>reason = msg, argument = None, checkKey = None, checkValue = None\<rparr>"

definition throwArgumentError :: "string \<Rightarrow> jsval \<Rightarrow> error" where
  "throwArgumentError msg v = \<lparr>reason = msg, argument = Some v, checkKey = None, checkValue = None\<rparr>"

definition TypeError :: error where
  "TypeError = Error ''TypeError''"

text \<open>\<open>object[key]\<close>: a property that is not there reads as \<open>undefined\<close>.\<close>

definition get :: "object \<Rightarrow> string \<Rightarrow> jsval" where
  "get object key = (case map_of object key of Some v \<Rightarrow> v | None \<Rightarrow> Undefined)"

text \<open>\<open>object[key] = value\<close>: an existing key keeps its place, a new key goes last.\<close>

definition set_prop :: "object \<Rightarrow> string \<Rightarrow> jsval \<Rightarrow> object" where
  "set_prop object key v = AList.update key v object"

definition has_key :: "object \<Rightarrow> string \<Rightarrow> bool" where
  "has_key object key = (key \<in> set (map fst object))"

text \<open>\<open>value == null\<close> holds of \<open>null\<close> and \<open>undefined\<close> only.\<close>

fun nullish :: "jsval \<Rightarrow> bool" where
  "nullish Undefined = True"
| "nullish Null = True"
| "nullish _ = False"

text \<open>Truthiness, as \<open>if (value)\<close> and \<open>value || d\<close> read it.\<close>

fun truthy :: "jsval \<Rightarrow> bool" where
  "truthy Undefined = False"
| "truthy Null = False"
| "truthy (Boolean b) = b"
| "truthy (Num n) = (n \<noteq> 0)"
| "truthy (Str s) = (s \<noteq> [])"
| "truthy _ = True"

fun is_number :: "jsval \<Rightarrow> bool" where
  "is_number (Num n) = True"
| "is_number _ = False"

section \<open>Strings of hex digits\<close>

definition is_digit :: "char \<Rightarrow> bool" where
  "is_digit c = (c \<in> set ''0123456789'')"

definition is_hex_digit :: "char \<Rightarrow> bool" where
  "is_hex_digit c = (c \<in> set ''0123456789ABCDEFabcdef'')"

text \<open>
  \<open>String.prototype.toLowerCase\<close> on the ASCII letters. The formatter lowers a string
  only after it has passed \<open>isHexString\<close>, so no other letter reaches it.
\<close>

definition lowerChar :: "char \<Rightarrow> char" where
  "lowerChar c =
     (case map_of (zip ''ABCDEFGHIJKLMNOPQRSTUVWXYZ'' ''abcdefghijklmnopqrstuvwxyz'') c of
        Some d \<Rightarrow> d
      | None \<Rightarrow> c)"

definition toLowerCase :: "string \<Rightarrow> string" where
  "toLowerCase s = map lowerChar s"

text \<open>
  Modelled from the spec: the hex-string validity check and the byte-length utility of
  the external bytes library (\<open>isHexString\<close> and \<open>hexDataLength\<close> are imported, their
  code is not part of the repository). A valid hex string is \<open>0x\<close> followed by hex
  digits of either case and nothing else; its byte length is half its number of digits,
  and there is none (\<open>null\<close>) when the number of digits is odd.
\<close>

definition isHexString :: "string \<Rightarrow> bool" where
  "isHexString s = (take 2 s = ''0x'' \<and> list_all is_hex_digit (drop 2 s))"

definition hexDataLength :: "string \<Rightarrow> nat option" where
  "hexDataLength s =
     (if \<not> isHexString s \<or> length s mod 2 \<noteq> 0 then None
      else Some ((length s - 2) div 2))"

section \<open>Scalar coercers\<close>

text \<open>
  \<open>timestamp\<close>: \<open>value.match(/([0-9]){10}[.]([0-9]){9}/)\<close>. The pattern has no anchor, so
  \<open>match\<close> looks for it at every position of the string. \<open>match\<close> is a method of
  strings only: on any other value the call is a TypeError.
\<close>

definition matches_here :: "string \<Rightarrow> bool" where
  "matches_here s =
     (20 \<le> length s \<and> list_all is_digit (take 10 s) \<and> s ! 10 = CHR ''.''
      \<and> list_all is_digit (take 9 (drop 11 s)))"

fun regex_match :: "string \<Rightarrow> bool" where
  "regex_match [] = matches_here []"
| "regex_match (c # cs) = (matches_here (c # cs) \<or> regex_match cs)"

definition timestamp :: "jsval \<Rightarrow> error + jsval" where
  "timestamp v =
     (case v of
        Str s \<Rightarrow>
          if \<not> regex_match s then Inl (throwArgumentError ''bad timestamp format'' v)
          else Inr v
      | _ \<Rightarrow> Inl TypeError)"

text \<open>
  \<open>hex(value, strict)\<close>: a string that lacks the \<open>0x\<close> prefix gets it unless \<open>strict\<close>;
  a valid hex string is returned in lower case, anything else is an argument error.
\<close>

definition hex :: "jsval \<Rightarrow> bool \<Rightarrow> error + string" where
  "hex v strict =
     (case v of
        Str s \<Rightarrow>
          (let s' = (if \<not> strict \<and> take 2 s \<noteq> ''0x'' then ''0x'' @ s else s)
           in if isHexString s' then Inr (toLowerCase s')
              else Inl (throwArgumentError ''invalid hash'' (Str s')))
      | _ \<Rightarrow> Inl (throwArgumentError ''invalid hash'' v))"

text \<open>\<open>data(value, strict)\<close>: \<open>hex\<close>, then the length of the result must be even.\<close>

definition data :: "jsval \<Rightarrow> bool \<Rightarrow> error + string" where
  "data v strict =
     (case hex v strict of
        Inl e \<Rightarrow> Inl e
      | Inr result \<Rightarrow>
          if length result mod 2 \<noteq> 0
          then Inl (Error (''invalid data; odd-length - '' @ (case v of Str s \<Rightarrow> s | _ \<Rightarrow> [])))
          else Inr result)"

definition hash48 :: "jsval \<Rightarrow> bool \<Rightarrow> error + string" where
  "hash48 v strict =
     (case hex v strict of
        Inl e \<Rightarrow> Inl e
      | Inr result \<Rightarrow>
          if hexDataLength result \<noteq> Some 48 then Inl (throwArgumentError ''invalid hash'' v)
          else Inr result)"

definition hash32 :: "jsval \<Rightarrow> bool \<Rightarrow> error + string" where
  "hash32 v strict =
     (case hex v strict of
        Inl e \<Rightarrow> Inl e
      | Inr result \<Rightarrow>
          if hexDataLength result \<noteq> Some 32
          then Inl (throwArgumentError ''invalid topics hash'' v)
          else Inr result)"

section \<open>The field-coercion engine\<close>

text \<open>
  A coercer is a JavaScript function of one argument: it returns a value or throws, and
  it may have effects. The effects are a state \<open>'s\<close> the coercer reads and returns; a
  coercer that is not called leaves the state as it was. \<open>lift\<close> is a function
  without effects used as a coercer.
\<close>

type_synonym 's coercer = "jsval \<Rightarrow> 's \<Rightarrow> (error + jsval) \<times> 's"

type_synonym 's format = "(string \<times> 's coercer) list"

definition lift :: "(jsval \<Rightarrow> error + jsval) \<Rightarrow> 's coercer" where
  "lift f v s = (f v, s)"

definition str_result :: "error + string \<Rightarrow> error + jsval" where
  "str_result r = (case r of Inl e \<Rightarrow> Inl e | Inr x \<Rightarrow> Inr (Str x))"

text \<open>
  \<open>Formatter.check(format, object)\<close>. The format is the list of its keys and coercers in
  the order \<open>for (const key in format)\<close> visits them; \<open>result\<close> is the record built so
  far. A coercer that throws ends the loop: the error gets \<open>checkKey\<close> and \<open>checkValue\<close>
  and is thrown again.
\<close>

fun check_loop :: "'s format \<Rightarrow> object \<Rightarrow> object \<Rightarrow> 's \<Rightarrow> (error + object) \<times> 's" where
  "check_loop [] object result s = (Inr result, s)"
| "check_loop ((key, f) # rest) object result s =
     (case f (get object key) s of
        (Inl e, s') \<Rightarrow>
          (Inl (e\<lparr>checkKey := Some key, checkValue := Some (get object key)\<rparr>), s')
      | (Inr v, s') \<Rightarrow>
          check_loop rest object (if v \<noteq> Undefined then set_prop result key v else result) s')"

definition check :: "'s format \<Rightarrow> object \<Rightarrow> 's \<Rightarrow> (error + object) \<times> 's" where
  "check format object s = check_loop format object [] s"

text \<open>\<open>Formatter.allowNull(format, nullValue)\<close>; a call without \<open>nullValue\<close> passes \<open>Undefined\<close>.\<close>

definition allowNull :: "'s coercer \<Rightarrow> jsval \<Rightarrow> 's coercer" where
  "allowNull f nullValue v s = (if nullish v then (Inr nullValue, s) else f v s)"

definition allowFalsish :: "'s coercer \<Rightarrow> jsval \<Rightarrow> 's coercer" where
  "allowFalsish f replaceValue v s = (if \<not> truthy v then (Inr replaceValue, s) else f v s)"

text \<open>\<open>Formatter.arrayOf(format)\<close>: \<open>forEach\<close> pushes the coerced elements one by one.\<close>

fun arrayOf_each :: "'s coercer \<Rightarrow> jsval list \<Rightarrow> jsval list \<Rightarrow> 's \<Rightarrow> (error + jsval list) \<times> 's" where
  "arrayOf_each f [] result s = (Inr result, s)"
| "arrayOf_each f (v # vs) result s =
     (case f v s of
        (Inl e, s') \<Rightarrow> (Inl e, s')
      | (Inr x, s') \<Rightarrow> arrayOf_each f vs (result @ [x]) s')"

definition arrayOf :: "'s coercer \<Rightarrow> 's coercer" where
  "arrayOf f array s =
     (case array of
        Arr vs \<Rightarrow>
          (case arrayOf_each f vs [] s of
             (Inl e, s') \<Rightarrow> (Inl e, s')
           | (Inr result, s') \<Rightarrow> (Inr (Arr result), s'))
      | _ \<Rightarrow> (Inl (Error ''not an array''), s))"

section \<open>The collaborators\<close>

text \<open>
  The libraries the formatter imports and whose code is not part of the repository are
  parameters of the model: address checksumming and account resolution, the
  construction of an arbitrary-precision integer from a value, the access-list codec,
  zero-padding of a hex string, and the conversion of a value that is not a string to a
  string (\<open>value.toString()\<close>). Each returns a result or throws.
\<close>

record collaborators =
  getAddress :: "string \<Rightarrow> error + string"
  getAddressFromAccount :: "string \<Rightarrow> error + string"
  BigNumber_from :: "jsval \<Rightarrow> error + int"
  accessListify :: "jsval \<Rightarrow> error + jsval"
  hexZeroPad :: "string \<Rightarrow> nat \<Rightarrow> error + string"
  toString :: "jsval \<Rightarrow> string"

text \<open>
  Modelled from the spec: \<open>toNumber()\<close> of an arbitrary-precision integer, which is
  imported. It fails when the integer is out of the safe range, the integers a double
  holds exactly (less than \<open>2 ^ 53\<close> in absolute value).
\<close>

definition toNumber :: "int \<Rightarrow> error + jsval" where
  "toNumber n = (if - (2 ^ 53) < n \<and> n < 2 ^ 53 then Inr (Num (of_int n)) else Inl (Error ''overflow''))"

text \<open>\<open>isHexString(value)\<close> of any value: only a string can be a hex string.\<close>

definition isHexValue :: "jsval \<Rightarrow> bool" where
  "isHexValue v = (case v of Str s \<Rightarrow> isHexString s | _ \<Rightarrow> False)"

definition number :: "collaborators \<Rightarrow> jsval \<Rightarrow> error + jsval" where
  "number ext v =
     (if v = Str ''0x'' then Inr (Num 0)
      else case BigNumber_from ext v of Inl e \<Rightarrow> Inl e | Inr n \<Rightarrow> toNumber n)"

definition type :: "collaborators \<Rightarrow> jsval \<Rightarrow> error + jsval" where
  "type ext v =
     (if v = Str ''0x'' \<or> nullish v then Inr (Num 0)
      else case BigNumber_from ext v of Inl e \<Rightarrow> Inl e | Inr n \<Rightarrow> toNumber n)"

definition bigNumber :: "collaborators \<Rightarrow> jsval \<Rightarrow> error + jsval" where
  "bigNumber ext v = (case BigNumber_from ext v of Inl e \<Rightarrow> Inl e | Inr n \<Rightarrow> Inr (BigNum n))"

text \<open>
  \<open>address(value)\<close>: \<open>value.toString()\<close> is a TypeError on \<open>null\<close> and \<open>undefined\<close> and the
  string itself on a string; an address with a dot is an account to resolve first.
\<close>

definition address :: "collaborators \<Rightarrow> jsval \<Rightarrow> error + jsval" where
  "address ext v =
     (if nullish v then Inl TypeError
      else
        (let a = (case v of Str s \<Rightarrow> s | _ \<Rightarrow> toString ext v)
         in if CHR ''.'' \<in> set a
            then (case getAddressFromAccount ext a of
                    Inl e \<Rightarrow> Inl e
                  | Inr a' \<Rightarrow> str_result (getAddress ext a'))
            else str_result (getAddress ext a)))"

definition accessList :: "collaborators \<Rightarrow> jsval \<Rightarrow> error + jsval" where
  "accessList ext v = accessListify ext (if truthy v then v else Arr [])"

definition uint256 :: "collaborators \<Rightarrow> jsval \<Rightarrow> error + jsval" where
  "uint256 ext v =
     (case v of
        Str s \<Rightarrow> if \<not> isHexString s then Inl (Error ''invalid uint256'') else str_result (hexZeroPad ext s 32)
      | _ \<Rightarrow> Inl (Error ''invalid uint256''))"

definition contractAddress :: "jsval \<Rightarrow> jsval" where
  "contractAddress v = v"

section \<open>The formats\<close>

text \<open>
  The formats of \<open>getDefaultFormats\<close> the record formatters below use, each key with its
  coercer, in the order the source writes them. A coercer called through a format gets
  one argument, so \<open>strict\<close> is \<open>undefined\<close> (false) in \<open>data\<close>, \<open>hash48\<close> and \<open>hash32\<close>.
\<close>

definition formats_transaction :: "collaborators \<Rightarrow> 's format" where
  "formats_transaction ext =
     [(''hash'', lift (\<lambda>v. str_result (hash48 v False))),
      (''accessList'', allowNull (lift (accessList ext)) Null),
      (''from'', lift (address ext)),
      (''gasLimit'', lift (bigNumber ext)),
      (''to'', allowNull (lift (address ext)) Null),
      (''value'', lift (bigNumber ext)),
      (''data'', lift (\<lambda>v. str_result (data v False))),
      (''r'', allowNull (lift (uint256 ext)) Undefined),
      (''s'', allowNull (lift (uint256 ext)) Undefined),
      (''v'', allowNull (lift (number ext)) Undefined)]"

definition formats_receiptLog :: "collaborators \<Rightarrow> 's format" where
  "formats_receiptLog ext =
     [(''transactionIndex'', lift (number ext)),
      (''transactionHash'', lift (\<lambda>v. str_result (hash48 v False))),
      (''address'', lift (address ext)),
      (''topics'', arrayOf (lift (\<lambda>v. str_result (hash32 v False)))),
      (''data'', lift (\<lambda>v. str_result (data v False))),
      (''logIndex'', lift (number ext))]"

text \<open>
  \<open>receiptLog(value)\<close> as the coercer of the elements of \<open>logs\<close>. Reading a property of
  \<open>null\<close> or \<open>undefined\<close> is a TypeError, thrown again by the read in the handler of
  \<open>check\<close>; a plain object is read through its properties; any other value has none of
  the properties the format asks for.
\<close>

definition receiptLog :: "collaborators \<Rightarrow> 's coercer" where
  "receiptLog ext v s =
     (if nullish v then (Inl TypeError, s)
      else case check (formats_receiptLog ext) (case v of Obj ps \<Rightarrow> ps | _ \<Rightarrow> []) s of
             (Inl e, s') \<Rightarrow> (Inl e, s')
           | (Inr result, s') \<Rightarrow> (Inr (Obj result), s'))"

definition formats_receipt :: "collaborators \<Rightarrow> 's format" where
  "formats_receipt ext =
     [(''to'', allowNull (lift (address ext)) Null),
      (''from'', allowNull (lift (address ext)) Null),
      (''contractAddress'', allowNull (lift (address ext)) Null),
      (''timestamp'', lift timestamp),
      (''gasUsed'', lift (bigNumber ext)),
      (''logsBloom'', allowNull (lift (\<lambda>v. str_result (data v False))) Undefined),
      (''transactionHash'', lift (\<lambda>v. str_result (hash48 v False))),
      (''logs'', arrayOf (receiptLog ext)),
      (''cumulativeGasUsed'', lift (bigNumber ext)),
      (''status'', allowNull (lift (number ext)) Undefined),
      (''type'', lift (type ext))]"

section \<open>Record formatters\<close>

definition receipt :: "collaborators \<Rightarrow> object \<Rightarrow> 's \<Rightarrow> (error + object) \<times> 's" where
  "receipt ext v s =
     (case check (formats_receipt ext) v s of
        (Inl e, s') \<Rightarrow> (Inl e, s')
      | (Inr result, s') \<Rightarrow>
          (Inr (if \<not> nullish (get result ''status'')
                then set_prop result ''byzantium'' (Boolean True)
                else result), s'))"

text \<open>
  The number a value of type number holds. In \<open>result.v - 35\<close> the operand is what
  \<open>number\<close> returned, a number; the conversion JavaScript applies to an operand of
  another type is not modelled, and the second equation is never reached (lemma
  \<open>check_transaction_v\<close>).
\<close>

fun number_value :: "jsval \<Rightarrow> rat" where
  "number_value (Num n) = n"
| "number_value _ = 0"

text \<open>
  \<open>parseInt(x)\<close> of a number: the number is printed and the leading digits are read
  back. A number that is 0 or lies between \<open>1/2\<close> and \<open>10 ^ 21\<close> prints in plain
  decimal notation, so the digits read are its integer part.
\<close>

definition parseInt :: "rat \<Rightarrow> int" where
  "parseInt x = (if 0 \<le> x then \<lfloor>x\<rfloor> else \<lceil>x\<rceil>)"

text \<open>\<open>BigNumber.from(chainId).toNumber()\<close> when \<open>isHexString(chainId)\<close>, else the value itself.\<close>

definition hexToNumber :: "collaborators \<Rightarrow> jsval \<Rightarrow> error + jsval" where
  "hexToNumber ext chainId =
     (if isHexValue chainId
      then (case BigNumber_from ext chainId of Inl e \<Rightarrow> Inl e | Inr n \<Rightarrow> toNumber n)
      else Inr chainId)"

text \<open>
  The value \<open>transactionResponse\<close> stores in \<open>result.chainId\<close>, from the raw transaction
  and the coerced record (the \<open>if (transaction.chainId != null) ... else ...\<close> block).
\<close>

definition chainId_of :: "collaborators \<Rightarrow> object \<Rightarrow> object \<Rightarrow> error + jsval" where
  "chainId_of ext transaction result =
     (if \<not> nullish (get transaction ''chainId'')
      then hexToNumber ext (get transaction ''chainId'')
      else
        (let c0 = get transaction ''networkId'';
             c1 = (if nullish c0 \<and> nullish (get result ''v'')
                   then get transaction ''chainId'' else c0)
         in case hexToNumber ext c1 of
              Inl e \<Rightarrow> Inl e
            | Inr c2 \<Rightarrow>
                (let c3 = (if \<not> is_number c2 \<and> \<not> nullish (get result ''v'')
                           then (let c = (number_value (get result ''v'') - 35) / 2;
                                     c' = (if c < 0 then 0 else c)
                                 in Num (of_int (parseInt c')))
                           else c2);
                     c4 = (if \<not> is_number c3 then Num 0 else c3)
                 in Inr c4)))"

definition AddressZero :: string where
  "AddressZero = ''0x0000000000000000000000000000000000000000''"

text \<open>
  The five statements \<open>transactionResponse\<close> runs on its argument before it applies the
  format, each on the object as the statements before it left it:
  rename \<open>gas\<close> to \<open>gasLimit\<close>; correct a zero \<open>to\<close> to the zero address
  (\<open>BigNumber.from(transaction.to)\<close> may throw); rename \<open>input\<close> to \<open>data\<close>; populate
  \<open>creates\<close> with \<open>this.contractAddress(transaction)\<close>, which is the argument itself;
  default \<open>accessList\<close> to the empty list when \<open>type\<close> is 1 or 2.
\<close>

definition rename_gas :: "object \<Rightarrow> object" where
  "rename_gas transaction =
     (if \<not> nullish (get transaction ''gas'') \<and> nullish (get transaction ''gasLimit'')
      then set_prop transaction ''gasLimit'' (get transaction ''gas'')
      else transaction)"

definition correct_to :: "collaborators \<Rightarrow> object \<Rightarrow> error + object" where
  "correct_to ext transaction =
     (if truthy (get transaction ''to'')
      then (case BigNumber_from ext (get transaction ''to'') of
              Inl e \<Rightarrow> Inl e
            | Inr n \<Rightarrow>
                Inr (if n = 0 then set_prop transaction ''to'' (Str AddressZero)
                     else transaction))
      else Inr transaction)"

definition rename_input :: "object \<Rightarrow> object" where
  "rename_input transaction =
     (if \<not> nullish (get transaction ''input'') \<and> nullish (get transaction ''data'')
      then set_prop transaction ''data'' (get transaction ''input'')
      else transaction)"

definition populate_creates :: "nat \<Rightarrow> object \<Rightarrow> object" where
  "populate_creates a transaction =
     (if nullish (get transaction ''to'') \<and> nullish (get transaction ''creates'')
      then set_prop transaction ''creates'' (contractAddress (Ref a))
      else transaction)"

definition default_accessList :: "object \<Rightarrow> object" where
  "default_accessList transaction =
     (if (get transaction ''type'' = Num 1 \<or> get transaction ''type'' = Num 2)
         \<and> nullish (get transaction ''accessList'')
      then set_prop transaction ''accessList'' (Arr [])
      else transaction)"

text \<open>
  \<open>transactionResponse(transaction)\<close>. The argument is a reference \<open>a\<close> to an object of
  the store \<open>h\<close>; the writes of the five statements go to that object, so the store is
  returned with the result, also when a later step throws.
\<close>

definition transactionResponse ::
  "collaborators \<Rightarrow> nat \<Rightarrow> store \<Rightarrow> 's \<Rightarrow> (error + object) \<times> store \<times> 's" where
  "transactionResponse ext a h s =
     (let t1 = rename_gas (h a)
      in case correct_to ext t1 of
           Inl e \<Rightarrow> (Inl e, h(a := t1), s)
         | Inr t2 \<Rightarrow>
             (let t5 = default_accessList (populate_creates a (rename_input t2));
                  h' = h(a := t5)
              in case check (formats_transaction ext) t5 s of
                   (Inl e, s') \<Rightarrow> (Inl e, h', s')
                 | (Inr result, s') \<Rightarrow>
                     (case chainId_of ext t5 result of
                        Inl e \<Rightarrow> (Inl e, h', s')
                      | Inr chainId \<Rightarrow> (Inr (set_prop result ''chainId'' chainId), h', s'))))"

section \<open>Numbers of the byte generator: doubles\<close>

text \<open>
  The generator computes on numbers whose size the caller chooses, so its numbers are
  IEEE 754 doubles: a finite double is the rational it denotes, and there are the two
  infinities and NaN. The two zeros are one value (no operation below tells them apart).
\<close>

datatype double = Finite rat | PosInf | NegInf | NaN

text \<open>Rounding to the nearest integer, a tie to the even one.\<close>

definition round_even :: "rat \<Rightarrow> int" where
  "round_even r =
     (let n = \<lfloor>r\<rfloor>; f = r - of_int n
      in if f < 1 / 2 then n else if 1 / 2 < f then n + 1 else if even n then n else n + 1)"

text \<open>The binary exponent of a positive rational: \<open>2 powi e \<le> a < 2 powi (e + 1)\<close>.\<close>

definition exponent :: "rat \<Rightarrow> int" where
  "exponent a = (if 1 \<le> a then bitlen \<lfloor>a\<rfloor> - 1 else - bitlen (\<lceil>1 / a\<rceil> - 1))"

text \<open>
  Rounding of a rational to 53 significant bits, to nearest and ties to even: the
  result is a multiple of \<open>2 powi q\<close>, where \<open>q\<close> is 52 below the exponent of the
  rational and at least \<open>-1074\<close>, the exponent of the smallest subnormal double.
\<close>

definition fl :: "rat \<Rightarrow> rat" where
  "fl x =
     (if x = 0 then 0
      else (let q = max (exponent \<bar>x\<bar> - 52) (- 1074)
            in of_int (round_even (x / 2 powi q)) * 2 powi q))"

text \<open>The double an exact result rounds to: a rounded value beyond the range overflows.\<close>

definition round_double :: "rat \<Rightarrow> double" where
  "round_double x =
     (let r = fl x
      in if 2 ^ 1024 \<le> r then PosInf else if r \<le> - (2 ^ 1024) then NegInf else Finite r)"

fun fneg :: "double \<Rightarrow> double" where
  "fneg (Finite a) = Finite (- a)"
| "fneg PosInf = NegInf"
| "fneg NegInf = PosInf"
| "fneg NaN = NaN"

text \<open>\<open>x + y\<close>\<close>

fun fadd :: "double \<Rightarrow> double \<Rightarrow> double" where
  "fadd (Finite a) (Finite b) = round_double (a + b)"
| "fadd NaN y = NaN"
| "fadd x NaN = NaN"
| "fadd PosInf NegInf = NaN"
| "fadd NegInf PosInf = NaN"
| "fadd PosInf y = PosInf"
| "fadd NegInf y = NegInf"
| "fadd x PosInf = PosInf"
| "fadd x NegInf = NegInf"

text \<open>\<open>x - y\<close>\<close>

definition fsub :: "double \<Rightarrow> double \<Rightarrow> double" where
  "fsub x y = fadd x (fneg y)"

text \<open>\<open>x * y\<close>: an infinity times zero is NaN, otherwise an infinity with the sign of the product.\<close>

fun fmul :: "double \<Rightarrow> double \<Rightarrow> double" where
  "fmul (Finite a) (Finite b) = round_double (a * b)"
| "fmul NaN y = NaN"
| "fmul x NaN = NaN"
| "fmul (Finite a) y = (if a = 0 then NaN else if 0 < a then y else fneg y)"
| "fmul x (Finite b) = (if b = 0 then NaN else if 0 < b then x else fneg x)"
| "fmul PosInf y = y"
| "fmul NegInf y = fneg y"

text \<open>
  \<open>Math.floor(x)\<close>. The floor of a double is a double (lemma \<open>floor_fl_exact\<close>), so
  nothing is rounded.
\<close>

fun ffloor :: "double \<Rightarrow> double" where
  "ffloor (Finite a) = Finite (of_int \<lfloor>a\<rfloor>)"
| "ffloor x = x"

section \<open>The deterministic byte generator\<close>

type_synonym byte = "8 word"

text \<open>
  The hash is a parameter: \<open>keccak256\<close> maps bytes to a digest of 256 bits, and
  \<open>arrayify\<close> reads the digest as its 32 bytes, the most significant first.
  \<open>toUtf8Bytes\<close>, the encoding of the seed, is a parameter too.
\<close>

definition arrayify :: "256 word \<Rightarrow> byte list" where
  "arrayify d = map (\<lambda>i. ucast (drop_bit (8 * (31 - i)) d)) [0..<32]"

text \<open>\<open>result.length < upper\<close>: a comparison with NaN is false.\<close>

fun length_less :: "byte list \<Rightarrow> double \<Rightarrow> bool" where
  "length_less result (Finite u) = (of_nat (length result) < u)"
| "length_less result PosInf = True"
| "length_less result NegInf = False"
| "length_less result NaN = False"

text \<open>
  \<open>while (result.length < upper) result = concat([result, keccak256(result)])\<close>.
  The loop does not end when \<open>upper\<close> is infinite: the value is \<open>None\<close> then.
\<close>

partial_function (option) extend ::
  "(byte list \<Rightarrow> 256 word) \<Rightarrow> byte list \<Rightarrow> double \<Rightarrow> byte list option" where
  "extend keccak256 result upper =
     (if length_less result upper
      then extend keccak256 (result @ arrayify (keccak256 result)) upper
      else Some result)"

text \<open>
  \<open>top[i]\<close> of a byte array as an operand of \<open><<\<close> and \<open>|\<close>, which work on 32-bit integers:
  an index out of range reads \<open>undefined\<close>, which converts to 0.
\<close>

definition byte_at :: "byte list \<Rightarrow> nat \<Rightarrow> 32 word" where
  "byte_at bytes i = (if i < length bytes then ucast (bytes ! i) else 0)"

text \<open>
  \<open>((top[0] << 16) | (top[1] << 8) | top[2]) / 0x01000000\<close>. The 32-bit integer and its
  quotient by \<open>2 ^ 24\<close> are doubles, so the division rounds nothing (lemma
  \<open>percent_of_exact\<close>).
\<close>

definition percent_of :: "byte list \<Rightarrow> rat" where
  "percent_of top' =
     of_int (sint (push_bit 16 (byte_at top' 0) OR push_bit 8 (byte_at top' 1) OR byte_at top' 2))
       / 16777216"

text \<open>
  \<open>result.slice(0, end)\<close>. The end is made an integer first: NaN is 0, a fraction is cut
  off towards 0, an infinity stays. A negative end counts from the end of the array.
\<close>

definition truncate :: "rat \<Rightarrow> int" where
  "truncate x = (if 0 \<le> x then \<lfloor>x\<rfloor> else \<lceil>x\<rceil>)"

fun slice0 :: "byte list \<Rightarrow> double \<Rightarrow> byte list" where
  "slice0 xs (Finite e) =
     (let n = int (length xs);
          k = (if truncate e < 0 then max (n + truncate e) 0 else min (truncate e) n)
      in take (nat k) xs)"
| "slice0 xs PosInf = xs"
| "slice0 xs NegInf = []"
| "slice0 xs NaN = []"

text \<open>
  \<open>randomBytes(seed, lower, upper)\<close>; \<open>upper\<close> is optional, and \<open>!upper\<close> holds of a
  missing \<open>upper\<close>, of 0 and of NaN. In \<open>upper === 0 && upper === lower\<close> the first
  test excludes NaN, so the second is an equality of values.
\<close>

definition randomBytes ::
  "(byte list \<Rightarrow> 256 word) \<Rightarrow> (string \<Rightarrow> byte list) \<Rightarrow> string \<Rightarrow> double \<Rightarrow> double option
     \<Rightarrow> byte list option" where
  "randomBytes keccak256 toUtf8Bytes seed lower upper =
     (let upper = (case upper of
                     None \<Rightarrow> lower
                   | Some u \<Rightarrow> if u = Finite 0 \<or> u = NaN then lower else u)
      in if upper = Finite 0 \<and> upper = lower then Some []
         else
           (case extend keccak256 (arrayify (keccak256 (toUtf8Bytes seed))) upper of
              None \<Rightarrow> None
            | Some result \<Rightarrow>
                (let top' = arrayify (keccak256 result);
                     percent = Finite (percent_of top')
                 in Some (slice0 result
                            (fadd lower (ffloor (fmul (fsub upper lower) percent)))))))"

text \<open>
  \<open>randomNumber(seed, lower, upper)\<close>: the value is \<open>None\<close> when \<open>randomBytes(seed, 3)\<close>
  does not return.
\<close>

definition randomNumber ::
  "(byte list \<Rightarrow> 256 word) \<Rightarrow> (string \<Rightarrow> byte list) \<Rightarrow> string \<Rightarrow> double \<Rightarrow> double
     \<Rightarrow> double option" where
  "randomNumber keccak256 toUtf8Bytes seed lower upper =
     (case randomBytes keccak256 toUtf8Bytes seed (Finite 3) None of
        None \<Rightarrow> None
      | Some top' \<Rightarrow>
          (let percent = Finite (percent_of top')
           in Some (fadd lower (ffloor (fmul (fsub upper lower) percent)))))"

section \<open>An instance of the collaborators\<close>

text \<open>
  One instance of the collaborators, to run the record formatters on examples: an
  address is taken as it is, an integer is read from an integral number, from a
  BigNumber or from the digits of a hex string, an access list is taken as it is, and a
  hex string is padded with zeros on the left.
\<close>

definition digit_value :: "char \<Rightarrow> int" where
  "digit_value c =
     (case map_of (zip ''0123456789abcdef'' [0, 1, 2, 3, 4, 5, 6, 7, 8, 9, 10, 11, 12, 13, 14, 15])
             (lowerChar c) of
        Some d \<Rightarrow> d
      | None \<Rightarrow> 0)"

definition hex_value :: "string \<Rightarrow> int" where
  "hex_value s = foldl (\<lambda>n c. 16 * n + digit_value c) 0 (drop 2 s)"

definition sample_collaborators :: collaborators where
  "sample_collaborators =
     \<lparr>getAddress = Inr,
      getAddressFromAccount = Inr,
      BigNumber_from =
        (\<lambda>v. case v of
               Num n \<Rightarrow> if of_int \<lfloor>n\<rfloor> = n then Inr \<lfloor>n\<rfloor> else Inl (Error ''invalid BigNumber value'')
             | BigNum n \<Rightarrow> Inr n
             | Str s \<Rightarrow> if isHexString s then Inr (hex_value s)
                        else Inl (Error ''invalid BigNumber string'')
             | _ \<Rightarrow> Inl (Error ''invalid BigNumber value'')),
      accessListify = Inr,
      hexZeroPad = (\<lambda>s n. Inr (''0x'' @ replicate (2 * n - (length s - 2)) CHR ''0'' @ drop 2 s)),
      toString = (\<lambda>v. [])\<rparr>"

section \<open>Hex strings and the scalar coercers\<close>


lemma lowerChar_hex: "is_hex_digit c \<Longrightarrow> is_hex_digit (lowerChar c)"
  unfolding is_hex_digit_def by (elim disjE | simp add: lowerChar_def)+

lemma lowerChar_idem_hex: "is_hex_digit c \<Longrightarrow> lowerChar (lowerChar c) = lowerChar c"
  unfolding is_hex_digit_def by (elim disjE | simp add: lowerChar_def)+

lemma lowerChar_0x: "lowerChar CHR ''0'' = CHR ''0''" "lowerChar CHR ''x'' = CHR ''x''"
  by (simp_all add: lowerChar_def)

lemma isHexString_iff: "isHexString s \<longleftrightarrow> (\<exists>ds. s = ''0x'' @ ds \<and> list_all is_hex_digit ds)"
proof
  assume "isHexString s"
  then have "take 2 s = ''0x''" "list_all is_hex_digit (drop 2 s)" by (simp_all add: isHexString_def)
  moreover have "s = take 2 s @ drop 2 s" by simp
  ultimately show "\<exists>ds. s = ''0x'' @ ds \<and> list_all is_hex_digit ds" by metis
next
  assume "\<exists>ds. s = ''0x'' @ ds \<and> list_all is_hex_digit ds"
  then show "isHexString s" by (auto simp: isHexString_def)
qed

lemma toLowerCase_0x: "toLowerCase (CHR ''0'' # CHR ''x'' # ds) = CHR ''0'' # CHR ''x'' # map lowerChar ds"
  by (simp add: toLowerCase_def lowerChar_0x)

lemma isHexString_lower: "isHexString s \<Longrightarrow> isHexString (toLowerCase s)"
  by (auto simp: isHexString_iff toLowerCase_0x list_all_iff lowerChar_hex)

lemma toLowerCase_idem_hex: "isHexString s \<Longrightarrow> toLowerCase (toLowerCase s) = toLowerCase s"
  by (auto simp: isHexString_iff toLowerCase_0x list_all_iff lowerChar_idem_hex)

lemma take2_lower: "isHexString s \<Longrightarrow> take 2 (toLowerCase s) = ''0x''"
  by (auto simp: isHexString_iff toLowerCase_0x)

lemma hex_Inr:
  "hex v strict = Inr r \<Longrightarrow> isHexString r \<and> toLowerCase r = r \<and> take 2 r = ''0x''"
  by (cases v) (auto simp: hex_def Let_def isHexString_lower toLowerCase_idem_hex take2_lower split: if_splits)

lemma hex_fixed: "isHexString r \<Longrightarrow> toLowerCase r = r \<Longrightarrow> hex (Str r) strict = Inr r"
  by (auto simp: hex_def Let_def isHexString_def)

lemma hex_0x: "list_all is_hex_digit ds \<Longrightarrow> hex (Str (''0x'' @ ds)) strict = Inr (toLowerCase (''0x'' @ ds))"
  by (simp add: hex_def Let_def isHexString_def)

lemma length_ge2: "isHexString r \<Longrightarrow> 2 \<le> length r"
  by (auto simp: isHexString_iff)

text \<open>
  C3. \<open>timestamp\<close> is meant to accept exactly the strings of ten digits, a dot and nine
  digits. Its pattern is not anchored, so a string that only contains such a run passes
  too: the string below has 21 characters and is returned as a valid timestamp.
\<close>

theorem timestamp_accepts_unanchored:
  "timestamp (Str ''1234567890.123456789Z'') = Inr (Str ''1234567890.123456789Z'')
   \<and> length ''1234567890.123456789Z'' = 21"
  by (simp add: timestamp_def matches_here_def is_digit_def)

text \<open>
  C6. On a hex string, \<open>0x\<close> followed by hex digits, \<open>hash48\<close> returns the string in
  lower case when it has 48 bytes (96 digits), and throws an argument error for every
  other number of digits, odd ones included.
\<close>

theorem hash48_spec:
  "list_all is_hex_digit ds \<Longrightarrow>
   hash48 (Str (''0x'' @ ds)) strict =
     (if length ds = 96 then Inr (toLowerCase (''0x'' @ ds))
      else Inl (throwArgumentError ''invalid hash'' (Str (''0x'' @ ds))))"
proof -
  assume ds: "list_all is_hex_digit ds"
  have hx: "isHexString (toLowerCase (''0x'' @ ds))"
    using ds by (intro isHexString_lower) (simp add: isHexString_def)
  have len: "length (toLowerCase (''0x'' @ ds)) = length ds + 2"
    by (simp add: toLowerCase_def)
  have "hexDataLength (toLowerCase (''0x'' @ ds)) = Some 48 \<longleftrightarrow> length ds = 96"
    unfolding hexDataLength_def using hx len by auto
  then show ?thesis
    using hex_0x [OF ds, of strict] by (simp add: hash48_def)
qed

theorem hash48_spec_witness:
  "hash48 (Str (''0x'' @ replicate 96 CHR ''A'')) False = Inr (''0x'' @ replicate 96 CHR ''a'')
   \<and> hash48 (Str (''0x'' @ ''AB'')) False = Inl (throwArgumentError ''invalid hash'' (Str ''0xAB''))"
  using hash48_spec [of "replicate 96 CHR ''A''" False] hash48_spec [of "''AB''" False]
  by (simp add: is_hex_digit_def toLowerCase_def lowerChar_def list_all_iff)

text \<open>
  C7. A successful \<open>data\<close> returns a fixed point of \<open>data\<close> (with either value of
  \<open>strict\<close> in the second call), and \<open>data\<close> throws exactly when \<open>hex\<close> throws or the
  digits after \<open>0x\<close> of the string \<open>hex\<close> returns are odd in number.
\<close>

theorem data_idempotent:
  "(data v strict = Inr r \<longrightarrow> data (Str r) strict' = Inr r)
   \<and> (isl (data v strict) \<longleftrightarrow>
        isl (hex v strict) \<or> (\<exists>x. hex v strict = Inr x \<and> odd (length (drop 2 x))))"
proof
  show "data v strict = Inr r \<longrightarrow> data (Str r) strict' = Inr r"
  proof
    assume d: "data v strict = Inr r"
    then have h: "hex v strict = Inr r" and ev: "length r mod 2 = 0"
      by (auto simp: data_def split: sum.splits if_splits)
    from hex_Inr [OF h] have "hex (Str r) strict' = Inr r" by (simp add: hex_fixed)
    with ev show "data (Str r) strict' = Inr r" by (simp add: data_def)
  qed
next
  show "isl (data v strict) \<longleftrightarrow>
        isl (hex v strict) \<or> (\<exists>x. hex v strict = Inr x \<and> odd (length (drop 2 x)))"
  proof (cases "hex v strict")
    case (Inl e)
    then show ?thesis by (simp add: data_def)
  next
    case (Inr x)
    from hex_Inr [OF Inr] have "2 \<le> length x" by (simp add: length_ge2)
    then have "odd (length (drop 2 x)) \<longleftrightarrow> length x mod 2 \<noteq> 0"
      by (simp add: odd_iff_mod_2_eq_one)
    with Inr show ?thesis by (simp add: data_def)
  qed
qed

theorem data_idempotent_witness:
  "data (Str ''ABcd'') False = Inr ''0xabcd'' \<and> data (Str ''0xabcd'') False = Inr ''0xabcd''
   \<and> isl (data (Str ''0xabc'') False) \<and> isl (data (Str ''0xzz'') False)"
  using data_idempotent [of "Str ''ABcd''" False "''0xabcd''" False]
    data_idempotent [of "Str ''0xabc''" False "''''" False]
    data_idempotent [of "Str ''0xzz''" False "''''" False]
  by (simp add: data_def hex_def isHexString_def is_hex_digit_def toLowerCase_def lowerChar_def)

text \<open>
  C8. \<open>allowNull f X\<close> returns \<open>X\<close> on \<open>null\<close> and on \<open>undefined\<close> and leaves the state as
  it was, so \<open>f\<close> was not called; on any other value it is the call of \<open>f\<close>.
\<close>

theorem allowNull_spec:
  "allowNull f X Null s = (Inr X, s) \<and> allowNull f X Undefined s = (Inr X, s)
   \<and> (v \<noteq> Null \<and> v \<noteq> Undefined \<longrightarrow> allowNull f X v s = f v s)"
  by (cases v) (simp_all add: allowNull_def)

theorem allowNull_spec_witness:
  "allowNull (\<lambda>v n. (Inr v, Suc n)) (Str ''X'') Null (0::nat) = (Inr (Str ''X''), 0)
   \<and> allowNull (\<lambda>v n. (Inr v, Suc n)) (Str ''X'') Undefined (0::nat) = (Inr (Str ''X''), 0)
   \<and> allowNull (\<lambda>v n. (Inr v, Suc n)) (Str ''X'') (Num 7) (0::nat) = (Inr (Num 7), 1)"
  using allowNull_spec [of "\<lambda>v n. (Inr v, Suc n)" "Str ''X''" "0::nat" "Num 7"]
  by simp

section \<open>The field-coercion engine: properties\<close>

lemma get_set_prop: "get (set_prop t k v) k' = (if k' = k then v else get t k')"
  by (simp add: get_def set_prop_def update_conv')

lemma has_key_set_prop: "has_key (set_prop t k v) k' \<longleftrightarrow> k' = k \<or> has_key t k'"
  by (auto simp: has_key_def set_prop_def dom_update)

lemma map_of_set_prop: "map_of (set_prop t k v) = (map_of t)(k \<mapsto> v)"
  by (simp add: set_prop_def update_conv')

lemma has_key_map_of: "has_key t k \<longleftrightarrow> map_of t k \<noteq> None"
  by (simp add: has_key_def map_of_eq_None_iff)

lemma check_loop_append:
  "check_loop (xs @ ys) obj r s =
     (case check_loop xs obj r s of
        (Inl e, s') \<Rightarrow> (Inl e, s')
      | (Inr r', s') \<Rightarrow> check_loop ys obj r' s')"
  by (induction xs arbitrary: r s) (auto split: prod.splits sum.splits)

lemma check_loop_keep:
  "check_loop fmt obj r0 s = (Inr r, s') \<Longrightarrow> k \<notin> fst ` set fmt \<Longrightarrow> map_of r k = map_of r0 k"
proof (induction fmt arbitrary: r0 s)
  case Nil
  then show ?case by simp
next
  case (Cons p fmt)
  obtain key f where p: "p = (key, f)" by (cases p)
  from Cons.prems p obtain v s1 where
    f: "f (get obj key) s = (Inr v, s1)" and
    rest: "check_loop fmt obj (if v \<noteq> Undefined then set_prop r0 key v else r0) s1 = (Inr r, s')"
    by (auto split: prod.splits sum.splits)
  from Cons.prems p have k: "k \<noteq> key" "k \<notin> fst ` set fmt" by auto
  from Cons.IH [OF rest k(2)] k(1) show ?case by (simp add: map_of_set_prop)
qed

lemma check_loop_keys:
  "check_loop fmt obj r0 s = (Inr r, s') \<Longrightarrow> has_key r k \<Longrightarrow> has_key r0 k \<or> k \<in> fst ` set fmt"
proof (induction fmt arbitrary: r0 s)
  case Nil
  then show ?case by simp
next
  case (Cons p fmt)
  obtain key f where p: "p = (key, f)" by (cases p)
  from Cons.prems p obtain v s1 where
    rest: "check_loop fmt obj (if v \<noteq> Undefined then set_prop r0 key v else r0) s1 = (Inr r, s')"
    by (auto split: prod.splits sum.splits)
  from Cons.IH [OF rest Cons.prems(2)] p show ?case
    by (auto simp: has_key_set_prop split: if_splits)
qed

lemma check_loop_defined:
  "check_loop fmt obj r0 s = (Inr r, s') \<Longrightarrow> \<forall>k. map_of r0 k \<noteq> Some Undefined
   \<Longrightarrow> map_of r k \<noteq> Some Undefined"
proof (induction fmt arbitrary: r0 s)
  case Nil
  then show ?case by simp
next
  case (Cons p fmt)
  obtain key f where p: "p = (key, f)" by (cases p)
  from Cons.prems p obtain v s1 where
    rest: "check_loop fmt obj (if v \<noteq> Undefined then set_prop r0 key v else r0) s1 = (Inr r, s')"
    by (auto split: prod.splits sum.splits)
  have "\<forall>k. map_of (if v \<noteq> Undefined then set_prop r0 key v else r0) k \<noteq> Some Undefined"
    using Cons.prems(2) by (simp add: map_of_set_prop)
  from Cons.IH [OF rest this] show ?case .
qed

lemma check_loop_distinct:
  "check_loop fmt obj r0 s = (Inr r, s') \<Longrightarrow> distinct (map fst r0) \<Longrightarrow> distinct (map fst r)"
proof (induction fmt arbitrary: r0 s)
  case Nil
  then show ?case by simp
next
  case (Cons p fmt)
  obtain key f where p: "p = (key, f)" by (cases p)
  from Cons.prems p obtain v s1 where
    rest: "check_loop fmt obj (if v \<noteq> Undefined then set_prop r0 key v else r0) s1 = (Inr r, s')"
    by (auto split: prod.splits sum.splits)
  have "distinct (map fst (if v \<noteq> Undefined then set_prop r0 key v else r0))"
    using Cons.prems(2) by (simp add: set_prop_def distinct_update)
  from Cons.IH [OF rest this] show ?case .
qed

text \<open>What a successful check did at one field of the format.\<close>

lemma check_field:
  assumes ok: "check (pre @ (key, f) # post) obj s = (Inr r, s')"
    and d: "distinct (map fst (pre @ (key, f) # post))"
  shows "\<exists>r1 s1 v s2. check pre obj s = (Inr r1, s1) \<and> f (get obj key) s1 = (Inr v, s2)
           \<and> map_of r key = (if v \<noteq> Undefined then Some v else None)"
proof -
  from ok obtain r1 s1 where pre: "check_loop pre obj [] s = (Inr r1, s1)"
    and tl: "check_loop ((key, f) # post) obj r1 s1 = (Inr r, s')"
    by (auto simp: check_def check_loop_append split: prod.splits sum.splits)
  from tl obtain v s2 where f: "f (get obj key) s1 = (Inr v, s2)"
    and post: "check_loop post obj (if v \<noteq> Undefined then set_prop r1 key v else r1) s2 = (Inr r, s')"
    by (auto split: prod.splits sum.splits)
  from d have k1: "key \<notin> fst ` set pre" and k2: "key \<notin> fst ` set post" by auto
  from check_loop_keep [OF pre k1] have "map_of r1 key = None" by simp
  with check_loop_keep [OF post k2] have "map_of r key = (if v \<noteq> Undefined then Some v else None)"
    by (simp add: map_of_set_prop)
  with pre f show ?thesis by (auto simp: check_def)
qed

text \<open>
  C1. \<open>check\<close> is fail-fast. It throws \<open>err\<close> and ends in state \<open>s'\<close> exactly when the
  format splits into fields that all succeeded, a field whose coercer threw \<open>e\<close> leaving
  the state \<open>s'\<close>, and any later fields: no record is returned, \<open>err\<close> is \<open>e\<close> with the
  key and the raw value of the failing field, and since the final state is the state the
  failing coercer left and nothing depends on the later fields, none of their coercers
  was called.
\<close>

theorem check_fail_fast:
  "check fmt obj s = (Inl err, s') \<longleftrightarrow>
     (\<exists>pre key f post r1 s1 e.
        fmt = pre @ (key, f) # post \<and> check pre obj s = (Inr r1, s1)
        \<and> f (get obj key) s1 = (Inl e, s')
        \<and> err = e\<lparr>checkKey := Some key, checkValue := Some (get obj key)\<rparr>)"
proof
  have gen: "check_loop fmt obj r0 s = (Inl err, s') \<Longrightarrow>
     \<exists>pre key f post r1 s1 e.
        fmt = pre @ (key, f) # post \<and> check_loop pre obj r0 s = (Inr r1, s1)
        \<and> f (get obj key) s1 = (Inl e, s')
        \<and> err = e\<lparr>checkKey := Some key, checkValue := Some (get obj key)\<rparr>" for r0
  proof (induction fmt arbitrary: r0 s)
    case Nil
    then show ?case by simp
  next
    case (Cons p fmt)
    obtain key f where p: "p = (key, f)" by (cases p)
    show ?case
    proof (cases "f (get obj key) s")
      case (Pair res s1)
      show ?thesis
      proof (cases res)
        case (Inl e)
        with Pair Cons.prems p
        have "s1 = s'" "err = e\<lparr>checkKey := Some key, checkValue := Some (get obj key)\<rparr>"
          by auto
        with Pair Inl p have "p # fmt = [] @ (key, f) # fmt \<and> check_loop [] obj r0 s = (Inr r0, s)
          \<and> f (get obj key) s = (Inl e, s')
          \<and> err = e\<lparr>checkKey := Some key, checkValue := Some (get obj key)\<rparr>" by simp
        then show ?thesis by blast
      next
        case (Inr v)
        let ?r = "if v \<noteq> Undefined then set_prop r0 key v else r0"
        from Pair Inr Cons.prems p have "check_loop fmt obj ?r s1 = (Inl err, s')" by simp
        from Cons.IH [OF this] obtain pre k g post r1 s2 e where
          "fmt = pre @ (k, g) # post" "check_loop pre obj ?r s1 = (Inr r1, s2)"
          "g (get obj k) s2 = (Inl e, s')"
          "err = e\<lparr>checkKey := Some k, checkValue := Some (get obj k)\<rparr>" by blast
        with Pair Inr p have "p # fmt = (p # pre) @ (k, g) # post
          \<and> check_loop (p # pre) obj r0 s = (Inr r1, s2) \<and> g (get obj k) s2 = (Inl e, s')
          \<and> err = e\<lparr>checkKey := Some k, checkValue := Some (get obj k)\<rparr>" by simp
        then show ?thesis by blast
      qed
    qed
  qed
  assume "check fmt obj s = (Inl err, s')"
  then show "\<exists>pre key f post r1 s1 e.
        fmt = pre @ (key, f) # post \<and> check pre obj s = (Inr r1, s1)
        \<and> f (get obj key) s1 = (Inl e, s')
        \<and> err = e\<lparr>checkKey := Some key, checkValue := Some (get obj key)\<rparr>"
    unfolding check_def by (rule gen)
next
  assume "\<exists>pre key f post r1 s1 e.
        fmt = pre @ (key, f) # post \<and> check pre obj s = (Inr r1, s1)
        \<and> f (get obj key) s1 = (Inl e, s')
        \<and> err = e\<lparr>checkKey := Some key, checkValue := Some (get obj key)\<rparr>"
  then show "check fmt obj s = (Inl err, s')"
    by (auto simp: check_def check_loop_append)
qed

theorem check_fail_fast_witness:
  "check [(''a'', \<lambda>v l. (Inr v, l @ [''a''])),
          (''b'', \<lambda>v l. (Inl (Error ''bad''), l @ [''b''])),
          (''c'', \<lambda>v l. (Inr v, l @ [''c'']))]
     [(''a'', Num 1), (''b'', Num 2), (''c'', Num 3)] []
   = (Inl \<lparr>reason = ''bad'', argument = None, checkKey = Some ''b'', checkValue = Some (Num 2)\<rparr>,
      [''a'', ''b''])"
  using check_fail_fast [of
      "[(''a'', \<lambda>v l. (Inr v, l @ [''a''])),
        (''b'', \<lambda>v l. (Inl (Error ''bad''), l @ [''b''])),
        (''c'', \<lambda>v l. (Inr v, l @ [''c'']))]"
      "[(''a'', Num 1), (''b'', Num 2), (''c'', Num 3)]" "[]"
      "\<lparr>reason = ''bad'', argument = None, checkKey = Some ''b'', checkValue = Some (Num 2)\<rparr>"
      "[''a'', ''b'']"]
  by (simp add: check_def get_def Error_def set_prop_def)

text \<open>
  C2. When \<open>check\<close> succeeds on a format with distinct keys, every field of the format
  was coerced, in order, and its key is in the record exactly when its coercer returned
  a value other than \<open>undefined\<close>, bound to that value (so \<open>null\<close> is kept); the record
  has no other key, and no key of it is bound to \<open>undefined\<close>.
\<close>

theorem check_record_keys:
  assumes ok: "check fmt obj s = (Inr r, s')" and d: "distinct (map fst fmt)"
  shows "(\<forall>pre key f post. fmt = pre @ (key, f) # post \<longrightarrow>
            (\<exists>r1 s1 v s2. check pre obj s = (Inr r1, s1) \<and> f (get obj key) s1 = (Inr v, s2)
               \<and> (has_key r key \<longleftrightarrow> v \<noteq> Undefined)
               \<and> (v \<noteq> Undefined \<longrightarrow> map_of r key = Some v)))
         \<and> (\<forall>key. has_key r key \<longrightarrow> key \<in> fst ` set fmt \<and> get r key \<noteq> Undefined)"
proof (intro conjI allI impI)
  fix pre key f post
  assume split: "fmt = pre @ (key, f) # post"
  from check_field [OF ok [unfolded split] d [unfolded split]]
  obtain r1 s1 v s2 where "check pre obj s = (Inr r1, s1)" "f (get obj key) s1 = (Inr v, s2)"
    "map_of r key = (if v \<noteq> Undefined then Some v else None)" by blast
  then have "check pre obj s = (Inr r1, s1) \<and> f (get obj key) s1 = (Inr v, s2)
               \<and> (has_key r key \<longleftrightarrow> v \<noteq> Undefined)
               \<and> (v \<noteq> Undefined \<longrightarrow> map_of r key = Some v)"
    by (simp add: has_key_map_of)
  then show "\<exists>r1 s1 v s2. check pre obj s = (Inr r1, s1) \<and> f (get obj key) s1 = (Inr v, s2)
               \<and> (has_key r key \<longleftrightarrow> v \<noteq> Undefined)
               \<and> (v \<noteq> Undefined \<longrightarrow> map_of r key = Some v)" by blast
next
  fix key assume h: "has_key r key"
  from check_loop_keys [OF ok [unfolded check_def] h] show "key \<in> fst ` set fmt"
    by (simp add: has_key_def)
next
  fix key assume h: "has_key r key"
  have "map_of r key \<noteq> Some Undefined"
    by (rule check_loop_defined [OF ok [unfolded check_def]]) simp
  with h show "get r key \<noteq> Undefined"
    by (auto simp: has_key_map_of get_def)
qed

theorem check_record_keys_witness:
  "check [(''a'', \<lambda>v n. (Inr Null, Suc n)),
          (''b'', \<lambda>v n. (Inr Undefined, Suc n)),
          (''c'', \<lambda>v n. (Inr v, Suc n))]
     [(''a'', Num 1), (''b'', Num 2), (''c'', Num 3)] (0::nat)
     = (Inr [(''a'', Null), (''c'', Num 3)], 3)
   \<and> has_key [(''a'', Null), (''c'', Num 3)] ''a''
   \<and> get [(''a'', Null), (''c'', Num 3)] ''a'' = Null
   \<and> \<not> has_key [(''a'', Null), (''c'', Num 3)] ''b''"
  using check_record_keys [of
      "[(''a'', \<lambda>v n. (Inr Null, Suc n)),
        (''b'', \<lambda>v n. (Inr Undefined, Suc n)),
        (''c'', \<lambda>v n. (Inr v, Suc n))]"
      "[(''a'', Num 1), (''b'', Num 2), (''c'', Num 3)]" "0::nat"
      "[(''a'', Null), (''c'', Num 3)]" 3]
  by (simp add: check_def get_def set_prop_def has_key_def)

section \<open>The deterministic byte generator: properties\<close>

lemma byte_at_bits: "bit (byte_at bytes i) n \<Longrightarrow> n < 8"
  by (auto simp: byte_at_def bit_ucast_iff dest: bit_imp_le_length split: if_splits)

lemma top24_bits:
  "bit (push_bit 16 (byte_at bytes 0) OR push_bit 8 (byte_at bytes 1) OR byte_at bytes 2) n \<Longrightarrow> n < 24"
  by (auto simp: bit_or_iff bit_push_bit_iff dest!: byte_at_bits)

lemma top24_range:
  fixes w :: "32 word"
  assumes "\<And>n. bit w n \<Longrightarrow> n < 24"
  shows "0 \<le> sint w \<and> sint w < 2 ^ 24"
proof -
  have tb: "take_bit 24 w = w"
    by (rule bit_eqI) (auto simp: bit_take_bit_iff dest: assms)
  have "uint (take_bit 24 w) = take_bit 24 (uint w)"
    by (rule unsigned_take_bit_eq)
  then have "uint w = take_bit 24 (uint w)" by (simp only: tb)
  moreover have "take_bit 24 (uint w) < (2 ^ 24 :: int)" by (rule take_bit_int_less_exp)
  ultimately have u: "uint w < 2 ^ 24" by simp
  have lo: "- (2 ^ 31 :: int) \<le> uint w" by (rule order_trans [of _ 0]) simp_all
  have hi: "uint w < 2 ^ 31" using u by simp
  have "sint w = signed_take_bit 31 (uint w)" by (simp add: sint_uint)
  also have "\<dots> = uint w" by (rule signed_take_bit_int_eq_self [OF lo hi])
  finally show ?thesis using u by simp
qed

lemma percent_of_range: "0 \<le> percent_of bytes \<and> percent_of bytes < 1"
proof -
  let ?w = "push_bit 16 (byte_at bytes 0) OR push_bit 8 (byte_at bytes 1) OR byte_at bytes 2"
  have r: "0 \<le> sint ?w \<and> sint ?w < 2 ^ 24"
    by (rule top24_range) (rule top24_bits)
  then have "(of_int 0 :: rat) \<le> of_int (sint ?w)" "(of_int (sint ?w) :: rat) < of_int (2 ^ 24)"
    by (simp_all only: of_int_le_iff of_int_less_iff)
  then have "0 \<le> (of_int (sint ?w) :: rat)" "(of_int (sint ?w) :: rat) < 16777216"
    by (simp_all del: of_int_sint)
  then show ?thesis by (simp add: percent_of_def del: of_int_sint)
qed


lemma round_even_ge: "of_int n \<le> r \<Longrightarrow> n \<le> round_even r"
  by (auto simp: round_even_def Let_def le_floor_iff) (simp add: le_floor_iff add.commute add_increasing)+

lemma round_even_le: "r \<le> of_int n \<Longrightarrow> round_even r \<le> n"
proof (cases "r = of_int n")
  case True
  then show ?thesis by (simp add: round_even_def)
next
  case False
  assume "r \<le> of_int n"
  with False have "r < of_int n" by simp
  then have "\<lfloor>r\<rfloor> < n" by (simp add: floor_less_iff)
  then show ?thesis by (auto simp: round_even_def Let_def)
qed

lemma round_even_minus: "round_even (- r) = - round_even r"
proof (cases "r = of_int \<lfloor>r\<rfloor>")
  case True
  then obtain n where "r = of_int n" ..
  then show ?thesis by (simp add: round_even_def flip: of_int_minus)
next
  case False
  then have c: "\<lceil>r\<rceil> = \<lfloor>r\<rfloor> + 1" by (simp add: ceiling_altdef)
  have f: "\<lfloor>- r\<rfloor> = - \<lfloor>r\<rfloor> - 1" using c by (simp add: floor_minus)
  show ?thesis
    unfolding round_even_def Let_def f by (auto simp: algebra_simps)
qed

lemma exponent_bounds:
  assumes "0 < a"
  shows "2 powi (exponent a) \<le> a \<and> a < 2 powi (exponent a + 1)"
proof (cases "1 \<le> a")
  case True
  define n where "n = \<lfloor>a\<rfloor>"
  have n: "0 < n" using True by (simp add: n_def)
  from bitlen_bounds [OF n] have b: "2 ^ nat (bitlen n - 1) \<le> n" "n < 2 ^ nat (bitlen n)" by auto
  have b1: "1 \<le> bitlen n" using n by (simp add: bitlen_alt_def)
  have e: "exponent a = bitlen n - 1" using True by (simp add: exponent_def n_def)
  have "(2::rat) powi (bitlen n - 1) = of_int (2 ^ nat (bitlen n - 1))"
    using b1 by (simp add: power_int_nonneg_exp)
  also have "\<dots> \<le> of_int n" using b(1) by (simp only: of_int_le_iff)
  also have "\<dots> \<le> a" by (simp add: n_def)
  finally have lo: "2 powi (exponent a) \<le> a" by (simp add: e)
  have "n + 1 \<le> 2 ^ nat (bitlen n)" using b(2) by simp
  then have "(of_int (n + 1) :: rat) \<le> of_int (2 ^ nat (bitlen n))" by (simp only: of_int_le_iff)
  moreover have "a < of_int (n + 1)" using floor_correct [of a] by (simp add: n_def)
  ultimately have "a < of_int (2 ^ nat (bitlen n))" by simp
  also have "\<dots> = 2 powi (exponent a + 1)" using b1 by (simp add: e power_int_nonneg_exp)
  finally show ?thesis using lo by simp
next
  case False
  define y where "y = 1 / a"
  have y: "1 < y" using False assms by (simp add: y_def)
  define m where "m = \<lceil>y\<rceil> - 1"
  have m: "0 < m" using y by (simp add: m_def less_ceiling_iff)
  have my: "of_int m < y" "y \<le> of_int m + 1"
    by (simp_all add: m_def) (metis ceiling_correct diff_less_eq of_int_1 of_int_diff)
  from bitlen_bounds [OF m] have b: "2 ^ nat (bitlen m - 1) \<le> m" "m < 2 ^ nat (bitlen m)" by auto
  have b1: "1 \<le> bitlen m" using m by (simp add: bitlen_alt_def)
  have e: "exponent a = - bitlen m" using False by (simp add: exponent_def m_def y_def)
  have "m + 1 \<le> 2 ^ nat (bitlen m)" using b(2) by simp
  then have "(of_int (m + 1) :: rat) \<le> of_int (2 ^ nat (bitlen m))" by (simp only: of_int_le_iff)
  with my(2) have "y \<le> 2 ^ nat (bitlen m)" by simp
  then have "1 / a \<le> 2 powi (bitlen m)" using b1 by (simp add: y_def power_int_nonneg_exp)
  then have "1 / (2 powi (bitlen m)) \<le> a"
    using assms by (simp add: field_simps)
  then have lo: "2 powi (exponent a) \<le> a" by (simp add: e power_int_minus_divide)
  have "(2::rat) ^ nat (bitlen m - 1) \<le> of_int m" using b(1) by simp
  from this my(1) have "2 ^ nat (bitlen m - 1) < y" by (rule le_less_trans)
  then have "2 powi (bitlen m - 1) < 1 / a" using b1 by (simp add: y_def power_int_nonneg_exp)
  then have "a < 1 / (2 powi (bitlen m - 1))"
    using assms by (simp add: field_simps)
  also have "\<dots> = 2 powi (exponent a + 1)"
    by (simp add: e flip: power_int_minus_divide)
  finally show ?thesis using lo by simp
qed

lemma fl_minus: "fl (- x) = - fl x"
  by (simp add: fl_def Let_def round_even_minus)

lemma fl_le_multiple:
  assumes "x \<noteq> 0" and "x \<le> of_int M * 2 powi (max (exponent \<bar>x\<bar> - 52) (- 1074))"
  shows "fl x \<le> of_int M * 2 powi (max (exponent \<bar>x\<bar> - 52) (- 1074))"
proof -
  define u :: rat where "u = 2 powi (max (exponent \<bar>x\<bar> - 52) (- 1074))"
  have u: "0 < u" by (simp add: u_def)
  from assms(2) have "x / u \<le> of_int M" using u by (simp add: u_def [symmetric] field_simps)
  then have "round_even (x / u) \<le> M" by (rule round_even_le)
  then have "(of_int (round_even (x / u)) :: rat) \<le> of_int M" by (simp only: of_int_le_iff)
  then have "of_int (round_even (x / u)) * u \<le> of_int M * u"
    using u by (simp only: mult_le_cancel_right_pos)
  then show ?thesis using assms(1) by (simp add: fl_def Let_def u_def)
qed

text \<open>
  Rounding does not cross a double: a bound \<open>m * 2 powi c\<close> with \<open>m\<close> of at most 53 bits
  and \<open>c\<close> in the range of exponents stays a bound of the rounded value.
\<close>

lemma fl_le:
  assumes m: "\<bar>m\<bar> \<le> 2 ^ 53" and c: "- 1074 \<le> c" and xy: "x \<le> of_int m * 2 powi c"
  shows "fl x \<le> of_int m * 2 powi c"
proof (cases "x = 0")
  case True
  with xy show ?thesis by (simp add: fl_def)
next
  case x0: False
  define e where "e = exponent \<bar>x\<bar>"
  define q where "q = max (e - 52) (- 1074)"
  define u :: rat where "u = 2 powi q"
  note A = fl_le_multiple [OF x0, folded e_def, folded q_def]
  show ?thesis
  proof (cases "q \<le> c")
    case True
    have "(2::rat) powi c = 2 powi (c - q) * 2 powi q"
      by (simp flip: power_int_add)
    also have "(2::rat) powi (c - q) = of_int (2 ^ nat (c - q))"
      using True by (simp add: power_int_nonneg_exp)
    finally have y: "of_int m * 2 powi c = of_int (m * 2 ^ nat (c - q)) * (2::rat) powi q"
      by simp
    from A [of "m * 2 ^ nat (c - q)"] xy show ?thesis unfolding y .
  next
    case False
    with c have q: "q = e - 52" by (simp add: q_def max_def split: if_splits)
    from exponent_bounds [of "\<bar>x\<bar>"] x0 have ex: "2 powi e \<le> \<bar>x\<bar>" by (simp add: e_def)
    have pe: "(2::rat) powi e = of_int (2 ^ 52) * 2 powi q"
      by (simp add: q power_int_diff)
    have "\<bar>of_int m * (2::rat) powi c\<bar> = of_int \<bar>m\<bar> * 2 powi c"
      by (simp add: abs_mult)
    also have "\<dots> \<le> of_int (2 ^ 53) * 2 powi c"
      using m by (intro mult_right_mono) (simp_all only: of_int_le_iff zero_le_power_int zero_le_numeral)
    also have "\<dots> = 2 powi (c + 53)" by (simp add: power_int_add)
    also have "\<dots> \<le> 2 powi e"
      using False q by (intro power_int_increasing) simp_all
    finally have ye: "\<bar>of_int m * (2::rat) powi c\<bar> \<le> 2 powi e" .
    show ?thesis
    proof (cases "0 < x")
      case True
      with xy ye ex have "x = 2 powi e" "of_int m * 2 powi c = x" by simp_all
      with A [of "2 ^ 52"] pe show ?thesis by simp
    next
      case False
      with x0 ex have "x \<le> - (2 powi e)" by simp
      then have "x \<le> of_int (- (2 ^ 52)) * 2 powi q" by (simp add: pe)
      from A [OF this] have "fl x \<le> - (2 powi e)" by (simp add: pe)
      with ye show ?thesis by simp
    qed
  qed
qed

lemma fl_ge:
  assumes m: "\<bar>m\<bar> \<le> 2 ^ 53" and c: "- 1074 \<le> c" and xy: "of_int m * 2 powi c \<le> x"
  shows "of_int m * 2 powi c \<le> fl x"
  using fl_le [of "- m" c "- x"] assms by (simp add: fl_minus)

lemma fl_id:
  assumes "\<bar>m\<bar> \<le> 2 ^ 53" "- 1074 \<le> c"
  shows "fl (of_int m * 2 powi c) = of_int m * 2 powi c"
  using fl_le [OF assms order_refl] fl_ge [OF assms order_refl] by simp

lemma fl_le_int: "\<bar>n\<bar> \<le> 2 ^ 53 \<Longrightarrow> x \<le> of_int n \<Longrightarrow> fl x \<le> of_int n"
  using fl_le [of n 0 x] by simp

lemma fl_ge_int: "\<bar>n\<bar> \<le> 2 ^ 53 \<Longrightarrow> of_int n \<le> x \<Longrightarrow> of_int n \<le> fl x"
  using fl_ge [of n 0 x] by simp

lemma fl_int: "\<bar>n\<bar> \<le> 2 ^ 53 \<Longrightarrow> fl (of_int n) = of_int n"
  using fl_id [of n 0] by simp

lemma fl_le_even: "\<bar>n\<bar> \<le> 2 ^ 53 \<Longrightarrow> x \<le> of_int (2 * n) \<Longrightarrow> fl x \<le> of_int (2 * n)"
  using fl_le [of n 1 x] by (simp add: mult.commute)

lemma fl_abs_le: assumes "\<bar>x\<bar> \<le> 2 ^ 54" shows "\<bar>fl x\<bar> \<le> 2 ^ 54"
proof -
  have "fl x \<le> of_int (2 * 2 ^ 53)" using assms by (intro fl_le_even) simp_all
  moreover have "of_int (- (2 ^ 53)) * 2 powi 1 \<le> fl x" using assms by (intro fl_ge) simp_all
  ultimately show ?thesis by simp
qed

lemma round_double_small: assumes "\<bar>x\<bar> \<le> 2 ^ 54" shows "round_double x = Finite (fl x)"
proof -
  have "(2::rat) ^ 54 < 2 ^ 1024" by (rule power_strict_increasing) simp_all
  with fl_abs_le [OF assms] have "fl x < 2 ^ 1024" "- (2 ^ 1024) < fl x" by simp_all
  then show ?thesis by (simp add: round_double_def Let_def)
qed

lemma percent_of_form:
  "\<exists>k. 0 \<le> k \<and> k < 2 ^ 24 \<and> percent_of bytes = of_int k / 16777216"
proof -
  let ?w = "push_bit 16 (byte_at bytes 0) OR push_bit 8 (byte_at bytes 1) OR byte_at bytes 2"
  have "0 \<le> sint ?w \<and> sint ?w < 2 ^ 24"
    by (rule top24_range) (rule top24_bits)
  moreover have "percent_of bytes = of_int (sint ?w) / 16777216"
    by (simp add: percent_of_def del: of_int_sint)
  ultimately show ?thesis by blast
qed

lemma fl_form: "\<exists>M q. \<bar>M\<bar> \<le> 2 ^ 53 \<and> - 1074 \<le> q \<and> fl x = of_int M * 2 powi q"
proof (cases "x = 0")
  case True
  have "\<bar>0::int\<bar> \<le> 2 ^ 53 \<and> - 1074 \<le> (0::int) \<and> fl x = of_int 0 * 2 powi 0"
    using True by (simp add: fl_def)
  then show ?thesis by blast
next
  case False
  define e where "e = exponent \<bar>x\<bar>"
  define q where "q = max (e - 52) (- 1074)"
  define u :: rat where "u = 2 powi q"
  have u: "0 < u" by (simp add: u_def)
  from exponent_bounds [of "\<bar>x\<bar>"] False have "\<bar>x\<bar> < 2 powi (e + 1)" by (simp add: e_def)
  also have "\<dots> \<le> 2 powi (q + 53)" by (intro power_int_increasing) (simp_all add: q_def)
  also have "\<dots> = 2 ^ 53 * u" by (simp add: u_def power_int_add)
  finally have "\<bar>x\<bar> / u < 2 ^ 53" using u by (simp add: field_simps)
  then have "\<bar>x / u\<bar> < 2 ^ 53" using u by simp
  then have "x / u < 2 ^ 53" "- (x / u) < 2 ^ 53" by (simp_all only: abs_less_iff)
  then have "x / u \<le> of_int (2 ^ 53)" "of_int (- (2 ^ 53)) \<le> x / u" by simp_all
  then have "round_even (x / u) \<le> 2 ^ 53" "- (2 ^ 53) \<le> round_even (x / u)"
    by (simp_all only: round_even_le round_even_ge)
  then have "\<bar>round_even (x / u)\<bar> \<le> 2 ^ 53" by simp
  moreover have "- 1074 \<le> q" by (simp add: q_def)
  moreover have "fl x = of_int (round_even (x / u)) * 2 powi q"
    using False by (simp add: fl_def Let_def u_def q_def e_def)
  ultimately show ?thesis by blast
qed

text \<open>A rounded value is a double, and so is its floor.\<close>

lemma abs_div_pow2_le: "\<bar>M div 2 ^ n\<bar> \<le> \<bar>M :: int\<bar>"
proof (cases "0 \<le> M")
  case True
  have "M div 2 ^ n \<le> M div 1" using True by (intro zdiv_mono2) simp_all
  moreover have "0 \<le> M div 2 ^ n" using True by (simp add: pos_imp_zdiv_nonneg_iff)
  ultimately show ?thesis using True by simp
next
  case False
  have "M div 1 \<le> M div 2 ^ n" using False by (intro zdiv_mono2_neg) simp_all
  moreover have "M div 2 ^ n < 0" using False by (simp add: pos_imp_zdiv_neg_iff)
  ultimately show ?thesis using False by simp
qed

lemma fl_idem: "fl (fl x) = fl x"
proof -
  from fl_form [of x] obtain M q where "\<bar>M\<bar> \<le> 2 ^ 53" "- 1074 \<le> q" "fl x = of_int M * 2 powi q"
    by blast
  then show ?thesis by (simp add: fl_id)
qed

lemma floor_fl_exact: "fl (of_int \<lfloor>fl x\<rfloor>) = of_int \<lfloor>fl x\<rfloor>"
proof -
  from fl_form [of x] obtain M q where M: "\<bar>M\<bar> \<le> 2 ^ 53" and q: "- 1074 \<le> q"
    and f: "fl x = of_int M * 2 powi q" by blast
  show ?thesis
  proof (cases "0 \<le> q")
    case True
    then have "fl x = of_int (M * 2 ^ nat q)" by (simp add: f power_int_nonneg_exp)
    then have e: "of_int \<lfloor>fl x\<rfloor> = fl x" by (simp only: floor_of_int)
    show ?thesis unfolding e by (rule fl_idem)
  next
    case False
    then have "(2::rat) powi q = 1 / of_int (2 ^ nat (- q))"
      using power_int_minus_divide [of "2::rat" "- q"] by (simp add: power_int_nonneg_exp)
    then have "fl x = of_int M / of_int (2 ^ nat (- q))" by (simp add: f)
    then have fl: "\<lfloor>fl x\<rfloor> = M div 2 ^ nat (- q)" by (simp only: floor_divide_of_int_eq)
    have "\<bar>M div 2 ^ nat (- q)\<bar> \<le> \<bar>M\<bar>" by (rule abs_div_pow2_le)
    with M have "\<bar>M div 2 ^ nat (- q)\<bar> \<le> 2 ^ 53" by simp
    then show ?thesis unfolding fl by (rule fl_int)
  qed
qed

lemma percent_of_exact: "fl (percent_of bytes) = percent_of bytes"
proof -
  from percent_of_form [of bytes] obtain k where k: "0 \<le> k" "k < 2 ^ 24"
    and p: "percent_of bytes = of_int k / 16777216" by blast
  have e: "percent_of bytes = of_int k * 2 powi (- 24)" by (simp add: p)
  have f: "fl (of_int k * 2 powi (- 24)) = of_int k * 2 powi (- 24)"
    using k by (intro fl_id) simp_all
  show ?thesis unfolding e by (rule f)
qed

text \<open>The loop ends for every finite bound.\<close>

lemma extend_Finite: "\<exists>r. extend keccak256 result (Finite u) = Some r"
proof (induction "nat (\<lceil>u\<rceil> - int (length result))" arbitrary: result rule: less_induct)
  case less
  show ?case
  proof (cases "length_less result (Finite u)")
    case False
    then show ?thesis by (subst extend.simps) simp
  next
    case True
    then have "int (length result) < \<lceil>u\<rceil>" by (simp add: less_ceiling_iff)
    then have "nat (\<lceil>u\<rceil> - int (length (result @ arrayify (keccak256 result))))
                 < nat (\<lceil>u\<rceil> - int (length result))"
      by (simp add: arrayify_def)
    from less [OF this] True show ?thesis by (subst extend.simps) simp
  qed
qed

lemma round_double_3: "round_double 3 = Finite 3" and round_double_0: "round_double 0 = Finite 0"
  using round_double_small [of 3] fl_int [of 3] round_double_small [of 0] by (simp_all add: fl_def)

text \<open>\<open>randomBytes(seed, 3)\<close> returns: the first three bytes of the hash of the seed.\<close>

lemma randomBytes_3:
  "randomBytes keccak256 toUtf8Bytes seed (Finite 3) None
     = Some (take 3 (arrayify (keccak256 (toUtf8Bytes seed))))"
proof -
  have "extend keccak256 (arrayify (keccak256 (toUtf8Bytes seed))) (Finite 3)
          = Some (arrayify (keccak256 (toUtf8Bytes seed)))"
    by (subst extend.simps) (simp add: arrayify_def)
  then show ?thesis
    by (simp add: randomBytes_def Let_def fsub_def round_double_0 round_double_3 truncate_def
        arrayify_def)
qed

text \<open>The product of a difference of safe integers and the fraction, rounded.\<close>

lemma product_bounds:
  fixes d k :: int
  assumes d: "1 \<le> d" "d \<le> 2 ^ 54 - 2" and k: "0 \<le> k" "k < 2 ^ 24"
  defines "m \<equiv> fl (fl (of_int d) * (of_int k / 16777216))"
  shows "0 \<le> m \<and> \<lfloor>m\<rfloor> \<le> d - 1 \<and> \<bar>fl (of_int d)\<bar> \<le> 2 ^ 54
         \<and> \<bar>fl (of_int d) * (of_int k / 16777216)\<bar> \<le> 2 ^ 54
         \<and> (d \<le> 2 ^ 29 \<longrightarrow> m = of_int d * (of_int k / 16777216))"
proof -
  define p :: rat where "p = of_int k / 16777216"
  define d' where "d' = fl (of_int d)"
  have mdef: "m = fl (d' * p)" by (simp add: m_def d'_def p_def)
  have p0: "0 \<le> p" using k by (simp add: p_def)
  have "(of_int k :: rat) \<le> of_int (2 ^ 24 - 1)" using k by (simp only: of_int_le_iff)
  then have p1: "p \<le> 1 - 1 / 16777216" by (simp add: p_def field_simps)
  have "(of_int d :: rat) \<le> of_int (2 ^ 54 - 2)" using d(2) by (simp only: of_int_le_iff)
  then have D: "(1::rat) \<le> of_int d" "(of_int d :: rat) \<le> 2 ^ 54 - 2"
    using d(1) by simp_all
  have d1: "1 \<le> d'" unfolding d'_def using fl_ge_int [of 1 "of_int d"] D by simp
  have dabs: "\<bar>d'\<bar> \<le> 2 ^ 54" unfolding d'_def using D by (intro fl_abs_le) simp
  then have d54: "d' \<le> 2 ^ 54" by simp
  have prod0: "0 \<le> d' * p" using d1 p0 by simp
  have "d' * p \<le> d' * 1" using d1 p1 by (intro mult_left_mono) simp_all
  with d54 prod0 have pabs: "\<bar>d' * p\<bar> \<le> 2 ^ 54" by simp
  have m0: "0 \<le> m" unfolding mdef
    using fl_ge_int [of 0 "d' * p"] prod0 by simp
  have small: "m = of_int d * p" if "d \<le> 2 ^ 29"
  proof -
    from that d have "\<bar>d\<bar> \<le> 2 ^ 53" by simp
    then have e: "d' = of_int d" unfolding d'_def by (rule fl_int)
    have "d * k \<le> 2 ^ 29 * 2 ^ 24" using that d k by (intro mult_mono) simp_all
    moreover have "0 \<le> d * k" using d k by simp
    ultimately have dk: "\<bar>d * k\<bar> \<le> 2 ^ 53" by simp
    have eq: "of_int d * p = of_int (d * k) * 2 powi (- 24)" by (simp add: p_def)
    have "fl (of_int d * p) = of_int d * p"
      unfolding eq using dk by (intro fl_id) simp_all
    then show ?thesis by (simp only: mdef e)
  qed
  have fm: "\<lfloor>m\<rfloor> \<le> d - 1"
  proof -
    consider "d \<le> 2 ^ 29" | "2 ^ 29 < d" "d \<le> 2 ^ 53" | "2 ^ 53 < d" by linarith
    then show ?thesis
    proof cases
      case 1
      have "of_int d * p \<le> of_int d * (1 - 1 / 16777216)"
        using D p1 by (intro mult_left_mono) simp_all
      also have "\<dots> < of_int d" using D by (simp add: field_simps)
      finally have "m < of_int d" using small [OF 1] by simp
      then show ?thesis by (simp add: floor_less_iff)
    next
      case 2
      then have "\<bar>d\<bar> \<le> 2 ^ 53" using d by simp
      then have e: "d' = of_int d" unfolding d'_def by (rule fl_int)
      have D29: "(2::rat) ^ 29 \<le> of_int d" using 2(1) by simp
      have "d' * p \<le> of_int d * (1 - 1 / 16777216)"
        unfolding e using D p1 by (intro mult_left_mono) simp_all
      also have "\<dots> \<le> of_int (d - 1)" using D29 by (simp add: field_simps)
      finally have "fl (d' * p) \<le> of_int (d - 1)"
        using 2 d by (intro fl_le_int) simp_all
      then have "m \<le> of_int (d - 1)" by (simp only: mdef)
      then have "\<lfloor>m\<rfloor> \<le> \<lfloor>(of_int (d - 1) :: rat)\<rfloor>" by (rule floor_mono)
      then show ?thesis by simp
    next
      case 3
      have D53: "(2::rat) ^ 53 \<le> of_int d" using 3 by simp
      have h: "\<bar>(d + 1) div 2\<bar> \<le> 2 ^ 53" using d by simp
      have "d \<le> 2 * ((d + 1) div 2)" by simp
      then have "(of_int d :: rat) \<le> of_int (2 * ((d + 1) div 2))"
        by (simp only: of_int_le_iff)
      with h have "d' \<le> of_int (2 * ((d + 1) div 2))"
        unfolding d'_def by (rule fl_le_even)
      also have "\<dots> \<le> of_int (d + 1)"
      proof -
        have "2 * ((d + 1) div 2) \<le> d + 1" by simp
        then show ?thesis by (simp only: of_int_le_iff)
      qed
      finally have up: "d' \<le> of_int d + 1" by simp
      have "d' * p \<le> d' * (1 - 1 / 16777216)"
        using d1 p1 by (intro mult_left_mono) simp_all
      also have "\<dots> \<le> (of_int d + 1) * (1 - 1 / 16777216)"
        using up by (intro mult_right_mono) simp_all
      also have "\<dots> \<le> of_int (d - 3)" using D53 by (simp add: field_simps)
      also have "\<dots> \<le> of_int (2 * ((d - 2) div 2))"
      proof -
        have "d - 3 \<le> 2 * ((d - 2) div 2)" by simp
        then show ?thesis by (simp only: of_int_le_iff)
      qed
      finally have le: "d' * p \<le> of_int (2 * ((d - 2) div 2))" .
      have "\<bar>(d - 2) div 2\<bar> \<le> 2 ^ 53" using d by simp
      from fl_le_even [OF this le] have "m \<le> of_int (2 * ((d - 2) div 2))"
        by (simp only: mdef)
      then have "\<lfloor>m\<rfloor> \<le> \<lfloor>(of_int (2 * ((d - 2) div 2)) :: rat)\<rfloor>" by (rule floor_mono)
      then have "\<lfloor>m\<rfloor> \<le> 2 * ((d - 2) div 2)" by (simp only: floor_of_int)
      then show ?thesis by simp
    qed
  qed
  from m0 fm dabs pabs small show ?thesis
    by (simp add: d'_def p_def)
qed

text \<open>
  C5, amended. For every hash, every seed and all integers \<open>lower < upper\<close> strictly
  between \<open>-2^53\<close> and \<open>2^53\<close>, \<open>randomNumber\<close> returns, and returns an integer of the
  half-open range from \<open>lower\<close> to \<open>upper\<close>; the fraction \<open>percent\<close>, read from the
  first three bytes of the hash of the seed, is at least 0 and less than 1; and when
  \<open>upper - lower\<close> is at most \<open>2^29\<close> no operation rounds, so the result is \<open>lower\<close>
  plus the floor of \<open>(upper - lower) * percent\<close>.
\<close>

theorem randomNumber_range:
  assumes lo: "- (2 ^ 53) < lower" and lu: "lower < upper" and hi: "upper < 2 ^ 53"
  shows "(\<exists>r. randomNumber keccak256 toUtf8Bytes seed (Finite (of_int lower)) (Finite (of_int upper))
              = Some (Finite (of_int r))
            \<and> lower \<le> r \<and> r < upper
            \<and> (upper - lower \<le> 2 ^ 29 \<longrightarrow>
                 r = lower + \<lfloor>of_int (upper - lower)
                              * percent_of (take 3 (arrayify (keccak256 (toUtf8Bytes seed))))\<rfloor>))
         \<and> 0 \<le> percent_of (take 3 (arrayify (keccak256 (toUtf8Bytes seed))))
         \<and> percent_of (take 3 (arrayify (keccak256 (toUtf8Bytes seed)))) < 1"
proof -
  define p where "p = percent_of (take 3 (arrayify (keccak256 (toUtf8Bytes seed))))"
  from percent_of_form obtain k where k: "0 \<le> k" "k < 2 ^ 24" and pk: "p = of_int k / 16777216"
    unfolding p_def by blast
  define d where "d = upper - lower"
  have d: "1 \<le> d" "d \<le> 2 ^ 54 - 2" using lo lu hi by (simp_all add: d_def)
  define d' where "d' = fl (of_int d)"
  define m where "m = fl (d' * p)"
  from product_bounds [OF d k] have m0: "0 \<le> m" and fm: "\<lfloor>m\<rfloor> \<le> d - 1"
    and dabs: "\<bar>fl (of_int d)\<bar> \<le> 2 ^ 54" and pabs: "\<bar>d' * p\<bar> \<le> 2 ^ 54"
    and small: "d \<le> 2 ^ 29 \<Longrightarrow> m = of_int d * p"
    by (simp_all add: m_def d'_def pk)
  have "(of_int d :: rat) \<le> of_int (2 ^ 54 - 2)" using d(2) by (simp only: of_int_le_iff)
  then have D: "\<bar>of_int d :: rat\<bar> \<le> 2 ^ 54" using d(1) by simp
  have s1: "fsub (Finite (of_int upper)) (Finite (of_int lower)) = Finite d'"
    using round_double_small [OF D] by (simp add: fsub_def d_def d'_def)
  have s2: "round_double (d' * p) = Finite m"
    using round_double_small [OF pabs] by (simp add: m_def)
  define r where "r = lower + \<lfloor>m\<rfloor>"
  have f0: "0 \<le> \<lfloor>m\<rfloor>" using m0 by simp
  have r: "lower \<le> r" "r < upper" using f0 fm by (simp_all add: r_def d_def)
  then have rabs: "\<bar>r\<bar> \<le> 2 ^ 53" using lo hi by simp
  then have "\<bar>of_int r :: rat\<bar> \<le> of_int (2 ^ 53)" by (simp only: of_int_abs [symmetric] of_int_le_iff)
  then have R: "\<bar>of_int r :: rat\<bar> \<le> 2 ^ 54" by simp
  have s4: "round_double (of_int lower + of_int \<lfloor>m\<rfloor>) = Finite (of_int r)"
    using round_double_small [OF R] fl_int [OF rabs] by (simp add: r_def)
  have run: "randomNumber keccak256 toUtf8Bytes seed (Finite (of_int lower)) (Finite (of_int upper))
              = Some (Finite (of_int r))"
    by (simp add: randomNumber_def randomBytes_3 Let_def p_def [symmetric] s1 s2 s4)
  have ex: "upper - lower \<le> 2 ^ 29 \<longrightarrow> r = lower + \<lfloor>of_int (upper - lower) * p\<rfloor>"
    using small by (simp add: r_def d_def)
  have "0 \<le> p \<and> p < 1" unfolding p_def by (rule percent_of_range)
  with run r ex show ?thesis unfolding p_def by blast
qed

text \<open>
  Beyond \<open>2^53\<close> the sum is rounded to a double and the upper bound can be returned:
  with a hash whose first three bytes are \<open>ff\<close>, between \<open>2^53 + 2\<close> and \<open>2^53 + 4\<close> the
  sum \<open>2^53 + 3\<close> is a tie and rounds to the even \<open>2^53 + 4\<close>.
\<close>

lemma percent_all_ones: "percent_of (take 3 (arrayify (- 1))) = 16777215 / 16777216"
  by code_simp

theorem randomNumber_returns_upper:
  "randomNumber (\<lambda>_. - 1) (\<lambda>_. []) ''seed'' (Finite 9007199254740994) (Finite 9007199254740996)
     = Some (Finite 9007199254740996)"
proof -
  have a: "fl 2 = 2" by code_simp
  have b: "fl (16777215 / 8388608) = 16777215 / 8388608" by code_simp
  have c: "fl 9007199254740995 = 9007199254740996" by code_simp
  have f: "\<lfloor>16777215 / 8388608 :: rat\<rfloor> = 1" by code_simp
  show ?thesis
    by (simp add: randomNumber_def randomBytes_3 fsub_def percent_all_ones round_double_small
        a b c f)
qed

theorem randomNumber_range_witness:
  "- (2 ^ 53) < (5::int) \<and> (5::int) < 10 \<and> (10::int) < 2 ^ 53
   \<and> randomNumber (\<lambda>_. - 1) (\<lambda>_. []) ''seed'' (Finite 5) (Finite 10) = Some (Finite 9)"
proof -
  have a: "fl 5 = 5" by code_simp
  have b: "fl (83886075 / 16777216) = 83886075 / 16777216" by code_simp
  have c: "fl 9 = 9" by code_simp
  have f: "\<lfloor>83886075 / 16777216 :: rat\<rfloor> = 4" by code_simp
  have e: "randomNumber (\<lambda>_. - 1) (\<lambda>_. []) ''seed'' (Finite 5) (Finite 10) = Some (Finite 9)"
    by (simp add: randomNumber_def randomBytes_3 fsub_def percent_all_ones round_double_small
        a b c f)
  from randomNumber_range [of 5 10 "\<lambda>_. - 1" "\<lambda>_. []" "''seed''"] e show ?thesis by simp
qed

section \<open>Record formatters: properties\<close>

lemma check_keys:
  "check fmt obj s = (Inr r, s') \<Longrightarrow> has_key r k \<Longrightarrow> k \<in> fst ` set fmt"
  using check_loop_keys [of fmt obj "[]" s r s' k] by (simp add: check_def has_key_def)

lemma check_defined:
  "check fmt obj s = (Inr r, s') \<Longrightarrow> has_key r k \<Longrightarrow> get r k \<noteq> Undefined"
  using check_loop_defined [of fmt obj "[]" s r s' k]
  by (auto simp: check_def has_key_map_of get_def)

lemma get_absent: "\<not> has_key r k \<Longrightarrow> get r k = Undefined"
  by (simp add: has_key_map_of get_def)

lemma nullish_iff: "nullish v \<longleftrightarrow> v = Undefined \<or> v = Null"
  by (cases v) simp_all

lemma receipt_status_null:
  assumes ok: "check (formats_receipt ext) v s = (Inr r, s')" and n: "nullish (get v ''status'')"
  shows "\<not> has_key r ''status''"
proof -
  define pre :: "'a format" where "pre = take 9 (formats_receipt ext)"
  define f :: "'a coercer" where "f = allowNull (lift (number ext)) Undefined"
  define post :: "'a format" where "post = [(''type'', lift (type ext))]"
  have split: "formats_receipt ext = pre @ (''status'', f) # post"
    by (simp add: formats_receipt_def pre_def f_def post_def)
  have d: "distinct (map fst (pre @ (''status'', f) # post))"
    unfolding split [symmetric] by (simp add: formats_receipt_def)
  from check_field [OF ok [unfolded split] d] obtain r1 s1 x s2 where
    f: "f (get v ''status'') s1 = (Inr x, s2)"
    and m: "map_of r ''status'' = (if x \<noteq> Undefined then Some x else None)" by blast
  from f n have "x = Undefined" by (simp add: f_def allowNull_def)
  with m show ?thesis by (simp add: has_key_map_of)
qed

text \<open>
  C9. In the record a successful \<open>receipt\<close> returns, \<open>byzantium\<close> is \<open>true\<close> exactly when
  the coerced \<open>status\<close> is present and not \<open>null\<close>, and the record has the key
  \<open>byzantium\<close> in that case only; when the raw \<open>status\<close> is \<open>null\<close> (or absent) the record
  has no key \<open>byzantium\<close>.
\<close>

theorem receipt_byzantium:
  assumes "receipt ext v s = (Inr result, s')"
  shows "(get result ''byzantium'' = Boolean True
            \<longleftrightarrow> has_key result ''status'' \<and> get result ''status'' \<noteq> Null)
         \<and> (has_key result ''byzantium''
            \<longleftrightarrow> has_key result ''status'' \<and> get result ''status'' \<noteq> Null)
         \<and> (nullish (get v ''status'') \<longrightarrow> \<not> has_key result ''byzantium'')"
proof -
  from assms obtain r where ok: "check (formats_receipt ext) v s = (Inr r, s')"
    and res: "result = (if \<not> nullish (get r ''status'')
                        then set_prop r ''byzantium'' (Boolean True) else r)"
    by (auto simp: receipt_def split: prod.splits sum.splits)
  have nb: "\<not> has_key r ''byzantium''"
    using check_keys [OF ok, of "''byzantium''"] by (auto simp: formats_receipt_def)
  have st: "nullish (get r ''status'') \<longleftrightarrow> \<not> (has_key r ''status'' \<and> get r ''status'' \<noteq> Null)"
    using check_defined [OF ok, of "''status''"] get_absent [of r "''status''"]
    by (auto simp: nullish_iff)
  have raw: "nullish (get v ''status'') \<Longrightarrow> nullish (get r ''status'')"
    using receipt_status_null [OF ok] get_absent [of r "''status''"] by simp
  show ?thesis
  proof (cases "nullish (get r ''status'')")
    case True
    with res have "result = r" by simp
    with True nb st show ?thesis by (simp add: get_absent)
  next
    case False
    with res have "result = set_prop r ''byzantium'' (Boolean True)" by simp
    with False st raw show ?thesis
      by (auto simp: get_set_prop has_key_set_prop)
  qed
qed

theorem receipt_byzantium_witness:
  "receipt sample_collaborators
     [(''to'', Null), (''from'', Str ''0xf00''), (''contractAddress'', Null),
      (''timestamp'', Str ''1234567890.123456789''), (''gasUsed'', Num 21000),
      (''logsBloom'', Null), (''transactionHash'', Str (''0x'' @ replicate 96 CHR ''a'')),
      (''logs'', Arr []), (''cumulativeGasUsed'', Num 21000), (''status'', Str ''0x1'')] ()
   = (Inr [(''to'', Null), (''from'', Str ''0xf00''), (''contractAddress'', Null),
           (''timestamp'', Str ''1234567890.123456789''), (''gasUsed'', BigNum 21000),
           (''transactionHash'', Str (''0x'' @ replicate 96 CHR ''a'')),
           (''logs'', Arr []), (''cumulativeGasUsed'', BigNum 21000),
           (''status'', Num 1), (''type'', Num 0), (''byzantium'', Boolean True)], ())
   \<and> receipt sample_collaborators
     [(''to'', Null), (''from'', Str ''0xf00''), (''contractAddress'', Null),
      (''timestamp'', Str ''1234567890.123456789''), (''gasUsed'', Num 21000),
      (''logsBloom'', Null), (''transactionHash'', Str (''0x'' @ replicate 96 CHR ''a'')),
      (''logs'', Arr []), (''cumulativeGasUsed'', Num 21000), (''status'', Null)] ()
   = (Inr [(''to'', Null), (''from'', Str ''0xf00''), (''contractAddress'', Null),
           (''timestamp'', Str ''1234567890.123456789''), (''gasUsed'', BigNum 21000),
           (''transactionHash'', Str (''0x'' @ replicate 96 CHR ''a'')),
           (''logs'', Arr []), (''cumulativeGasUsed'', BigNum 21000),
           (''type'', Num 0)], ())"
  (is "?A = (Inr ?ra, ()) \<and> ?B = (Inr ?rb, ())")
proof -
  have a: "?A = (Inr ?ra, ())" by code_simp
  have b: "?B = (Inr ?rb, ())" by code_simp
  from receipt_byzantium [OF a] receipt_byzantium [OF b] a b show ?thesis by simp
qed

section \<open>transactionResponse: properties\<close>

lemma get_if_set_prop:
  "get (if c then set_prop t k v else t) k' = (if c \<and> k' = k then v else get t k')"
  by (simp add: get_set_prop)

lemma parseInt_clamp: "parseInt (if c < 0 then 0 else c) = max 0 \<lfloor>c\<rfloor>"
  by (auto simp: parseInt_def max_def not_less floor_less_iff le_floor_iff)

lemma hexToNumber_nullish: "nullish c \<Longrightarrow> hexToNumber ext c = Inr c"
  by (cases c) (simp_all add: hexToNumber_def isHexValue_def)

lemma nullish_not_number: "nullish c \<Longrightarrow> \<not> is_number c"
  by (cases c) simp_all

lemma chainId_of_legacy:
  assumes "nullish (get t ''chainId'')" "nullish (get t ''networkId'')"
  shows "chainId_of ext t r =
           Inr (if nullish (get r ''v'') then Num 0
                else Num (of_int (max 0 \<lfloor>(number_value (get r ''v'') - 35) / 2\<rfloor>)))"
  using assms
  by (simp add: chainId_of_def Let_def hexToNumber_nullish nullish_not_number parseInt_clamp)

lemma get_rename_gas:
  "get (rename_gas t) k =
     (if k = ''gasLimit'' \<and> \<not> nullish (get t ''gas'') \<and> nullish (get t ''gasLimit'')
      then get t ''gas'' else get t k)"
  by (simp add: rename_gas_def get_set_prop)

lemma get_correct_to:
  "correct_to ext t = Inr t' \<Longrightarrow>
   get t' k =
     (if k = ''to'' \<and> truthy (get t ''to'') \<and> BigNumber_from ext (get t ''to'') = Inr 0
      then Str AddressZero else get t k)"
  by (auto simp: correct_to_def get_set_prop split: if_splits sum.splits)

lemma get_rename_input:
  "get (rename_input t) k =
     (if k = ''data'' \<and> \<not> nullish (get t ''input'') \<and> nullish (get t ''data'')
      then get t ''input'' else get t k)"
  by (simp add: rename_input_def get_set_prop)

lemma get_populate_creates:
  "get (populate_creates a t) k =
     (if k = ''creates'' \<and> nullish (get t ''to'') \<and> nullish (get t ''creates'')
      then Ref a else get t k)"
  by (simp add: populate_creates_def get_set_prop contractAddress_def)

lemma get_default_accessList:
  "get (default_accessList t) k =
     (if k = ''accessList'' \<and> (get t ''type'' = Num 1 \<or> get t ''type'' = Num 2)
         \<and> nullish (get t ''accessList'')
      then Arr [] else get t k)"
  by (auto simp: default_accessList_def get_set_prop)

lemmas get_steps = get_rename_gas get_rename_input get_populate_creates get_default_accessList

lemma transactionResponse_Inr:
  assumes "transactionResponse ext a h s = (Inr result, h', s')"
  shows "\<exists>t r c. check (formats_transaction ext) t s = (Inr r, s') \<and> chainId_of ext t r = Inr c
           \<and> result = set_prop r ''chainId'' c
           \<and> get t ''chainId'' = get (h a) ''chainId''
           \<and> get t ''networkId'' = get (h a) ''networkId''"
proof -
  from assms obtain t2 r c where
    t2: "correct_to ext (rename_gas (h a)) = Inr t2"
    and ok: "check (formats_transaction ext)
               (default_accessList (populate_creates a (rename_input t2))) s = (Inr r, s')"
    and c: "chainId_of ext (default_accessList (populate_creates a (rename_input t2))) r = Inr c"
    and res: "result = set_prop r ''chainId'' c"
    by (auto simp: transactionResponse_def Let_def split: sum.splits prod.splits)
  let ?t = "default_accessList (populate_creates a (rename_input t2))"
  have "get ?t ''chainId'' = get (h a) ''chainId''" "get ?t ''networkId'' = get (h a) ''networkId''"
    by (simp_all add: get_steps get_correct_to [OF t2])
  with ok c res show ?thesis by blast
qed

text \<open>What \<open>check\<close> leaves in \<open>v\<close> is a number, when it leaves anything.\<close>

lemma check_transaction_v:
  assumes ok: "check (formats_transaction ext) t s = (Inr r, s')"
  shows "\<not> has_key r ''v'' \<or> is_number (get r ''v'')"
proof -
  define pre :: "'a format" where "pre = take 9 (formats_transaction ext)"
  define f :: "'a coercer" where "f = allowNull (lift (number ext)) Undefined"
  have split: "formats_transaction ext = pre @ (''v'', f) # []"
    by (simp add: formats_transaction_def pre_def f_def)
  have d: "distinct (map fst (pre @ (''v'', f) # []))"
    unfolding split [symmetric] by (simp add: formats_transaction_def)
  from check_field [OF ok [unfolded split] d] obtain r1 s1 x s2 where
    f: "f (get t ''v'') s1 = (Inr x, s2)"
    and m: "map_of r ''v'' = (if x \<noteq> Undefined then Some x else None)" by blast
  from f have "x = Undefined \<or> is_number x"
    by (auto simp: f_def allowNull_def lift_def number_def toNumber_def
        split: if_splits sum.splits)
  with m show ?thesis by (auto simp: has_key_map_of get_def)
qed

text \<open>
  C4. When the raw transaction has neither \<open>chainId\<close> nor \<open>networkId\<close> and
  \<open>transactionResponse\<close> succeeds, the \<open>chainId\<close> of the record is the floor of
  \<open>(v - 35) / 2\<close>, or 0 when that is negative, for the number \<open>v\<close> of the record, and 0
  when the record has no \<open>v\<close>. For \<open>v = 37\<close> it is 1.
\<close>

theorem transactionResponse_chainId:
  assumes c: "nullish (get (h a) ''chainId'')" and n: "nullish (get (h a) ''networkId'')"
    and ok: "transactionResponse ext a h s = (Inr result, h', s')"
  shows "(get result ''v'' = Num v \<longrightarrow>
            get result ''chainId'' = Num (of_int (max 0 \<lfloor>(v - 35) / 2\<rfloor>)))
         \<and> (nullish (get result ''v'') \<longrightarrow> get result ''chainId'' = Num 0)"
proof -
  from transactionResponse_Inr [OF ok] obtain t r c where
    "chainId_of ext t r = Inr c" and res: "result = set_prop r ''chainId'' c"
    and "get t ''chainId'' = get (h a) ''chainId''" "get t ''networkId'' = get (h a) ''networkId''"
    by blast
  with c n chainId_of_legacy [of t ext r]
  have "c = (if nullish (get r ''v'') then Num 0
             else Num (of_int (max 0 \<lfloor>(number_value (get r ''v'') - 35) / 2\<rfloor>)))"
    by simp
  moreover from res have "get result ''v'' = get r ''v''" "get result ''chainId'' = c"
    by (simp_all add: get_set_prop)
  ultimately show ?thesis by auto
qed

theorem transactionResponse_chainId_witness:
  "transactionResponse sample_collaborators 0
     (\<lambda>_. [(''hash'', Str (''0x'' @ replicate 96 CHR ''a'')), (''from'', Str ''0xf00''),
            (''gas'', Num 21000), (''value'', Num 0), (''input'', Str ''0x''), (''v'', Num 37)]) ()
   = (Inr [(''hash'', Str (''0x'' @ replicate 96 CHR ''a'')), (''accessList'', Null),
           (''from'', Str ''0xf00''), (''gasLimit'', BigNum 21000), (''to'', Null),
           (''value'', BigNum 0), (''data'', Str ''0x''), (''v'', Num 37), (''chainId'', Num 1)],
      (\<lambda>_. [(''hash'', Str (''0x'' @ replicate 96 CHR ''a'')), (''from'', Str ''0xf00''),
            (''gas'', Num 21000), (''value'', Num 0), (''input'', Str ''0x''), (''v'', Num 37)])
        (0 := [(''hash'', Str (''0x'' @ replicate 96 CHR ''a'')), (''from'', Str ''0xf00''),
               (''gas'', Num 21000), (''value'', Num 0), (''input'', Str ''0x''), (''v'', Num 37),
               (''gasLimit'', Num 21000), (''data'', Str ''0x''), (''creates'', Ref 0)]),
      ())
   \<and> Num (of_int (max 0 \<lfloor>(37 - 35) / 2 :: rat\<rfloor>)) = Num 1"
  (is "?T = ?R \<and> _")
proof -
  have e: "?T = ?R"
    by (simp add: transactionResponse_def rename_gas_def correct_to_def rename_input_def
        populate_creates_def default_accessList_def contractAddress_def get_def set_prop_def
        sample_collaborators_def check_def formats_transaction_def lift_def allowNull_def
        str_result_def hash48_def hex_def isHexString_def hexDataLength_def toLowerCase_def
        lowerChar_def is_hex_digit_def list_all_iff address_def bigNumber_def data_def
        accessList_def number_def toNumber_def chainId_of_def hexToNumber_def isHexValue_def
        parseInt_def Let_def)
  have c: "nullish (get [(''hash'', Str (''0x'' @ replicate 96 CHR ''a'')), (''from'', Str ''0xf00''),
            (''gas'', Num 21000), (''value'', Num 0), (''input'', Str ''0x''), (''v'', Num 37)] ''chainId'')"
    and n: "nullish (get [(''hash'', Str (''0x'' @ replicate 96 CHR ''a'')), (''from'', Str ''0xf00''),
            (''gas'', Num 21000), (''value'', Num 0), (''input'', Str ''0x''), (''v'', Num 37)] ''networkId'')"
    by (simp_all add: get_def)
  from transactionResponse_chainId [OF c n e, of 37] e show ?thesis
    by (simp add: get_def)
qed

lemma correct_to_Inl:
  "correct_to ext t = Inl e \<Longrightarrow> truthy (get t ''to'') \<and> isl (BigNumber_from ext (get t ''to''))"
  by (auto simp: correct_to_def split: if_splits sum.splits)

text \<open>
  C10. \<open>transactionResponse\<close> writes to the object it is given, before the format is
  applied and whatever the outcome of the call: afterwards the object has \<open>gasLimit\<close>
  copied from \<open>gas\<close>, a zero \<open>to\<close> rewritten to the zero address, \<open>creates\<close> set to the
  object itself, and, unless \<open>BigNumber.from(transaction.to)\<close> threw, \<open>data\<close> copied from
  \<open>input\<close> and \<open>accessList\<close> defaulted to the empty list, each under the condition of
  its statement. No other object of the store changes.
\<close>

theorem transactionResponse_writes:
  assumes run: "transactionResponse ext a h s = (res, h', s')"
  shows "(\<not> nullish (get (h a) ''gas'') \<and> nullish (get (h a) ''gasLimit'')
            \<longrightarrow> get (h' a) ''gasLimit'' = get (h a) ''gas'')
         \<and> (truthy (get (h a) ''to'') \<and> BigNumber_from ext (get (h a) ''to'') = Inr 0
            \<longrightarrow> get (h' a) ''to'' = Str AddressZero)
         \<and> (nullish (get (h a) ''to'') \<and> nullish (get (h a) ''creates'')
            \<longrightarrow> get (h' a) ''creates'' = Ref a)
         \<and> ((truthy (get (h a) ''to'') \<longrightarrow> \<not> isl (BigNumber_from ext (get (h a) ''to'')))
            \<longrightarrow> (\<not> nullish (get (h a) ''input'') \<and> nullish (get (h a) ''data'')
                   \<longrightarrow> get (h' a) ''data'' = get (h a) ''input'')
                \<and> ((get (h a) ''type'' = Num 1 \<or> get (h a) ''type'' = Num 2)
                      \<and> nullish (get (h a) ''accessList'')
                   \<longrightarrow> get (h' a) ''accessList'' = Arr []))
         \<and> (\<forall>b. b \<noteq> a \<longrightarrow> h' b = h b)"
proof (cases "correct_to ext (rename_gas (h a))")
  case (Inl e)
  with run have h': "h' = h(a := rename_gas (h a))"
    by (simp add: transactionResponse_def Let_def)
  from correct_to_Inl [OF Inl]
  have "truthy (get (h a) ''to'')" "isl (BigNumber_from ext (get (h a) ''to''))"
    by (simp_all add: get_rename_gas)
  then have "\<not> nullish (get (h a) ''to'')" "BigNumber_from ext (get (h a) ''to'') \<noteq> Inr 0"
    by (auto simp: nullish_iff)
  with \<open>truthy (get (h a) ''to'')\<close> \<open>isl (BigNumber_from ext (get (h a) ''to''))\<close>
  show ?thesis by (simp add: h' get_rename_gas)
next
  case (Inr t2)
  with run have h': "h' = h(a := default_accessList (populate_creates a (rename_input t2)))"
    by (auto simp: transactionResponse_def Let_def split: prod.splits sum.splits)
  have to: "nullish (get (h a) ''to'') \<Longrightarrow> \<not> truthy (get (h a) ''to'')"
    by (auto simp: nullish_iff)
  show ?thesis
    unfolding h' using to
    by (simp add: get_steps get_correct_to [OF Inr])
qed

theorem transactionResponse_writes_witness:
  "transactionResponse sample_collaborators 0
     (\<lambda>_. [(''gas'', Str ''0x5208''), (''to'', Str ''0x0''), (''input'', Str ''0xabcd''),
            (''type'', Num 1)]) ()
   = (Inl \<lparr>reason = ''invalid hash'', argument = Some Undefined,
            checkKey = Some ''hash'', checkValue = Some Undefined\<rparr>,
      (\<lambda>_. [(''gas'', Str ''0x5208''), (''to'', Str ''0x0''), (''input'', Str ''0xabcd''),
            (''type'', Num 1)])
        (0 := [(''gas'', Str ''0x5208''), (''to'', Str AddressZero), (''input'', Str ''0xabcd''),
               (''type'', Num 1), (''gasLimit'', Str ''0x5208''), (''data'', Str ''0xabcd''),
               (''accessList'', Arr [])]),
      ())
   \<and> transactionResponse sample_collaborators 0 (\<lambda>_. []) ()
   = (Inl \<lparr>reason = ''invalid hash'', argument = Some Undefined,
            checkKey = Some ''hash'', checkValue = Some Undefined\<rparr>,
      (\<lambda>_. [])(0 := [(''creates'', Ref 0)]),
      ())"
  (is "?T1 = ?R1 \<and> ?T2 = ?R2")
proof -
  note defs = transactionResponse_def rename_gas_def correct_to_def rename_input_def
    populate_creates_def default_accessList_def contractAddress_def get_def set_prop_def
    sample_collaborators_def check_def formats_transaction_def lift_def
    str_result_def hash48_def hex_def throwArgumentError_def hex_value_def digit_value_def
    isHexString_def is_hex_digit_def lowerChar_def Let_def
  have e1: "?T1 = ?R1" by (simp add: defs)
  have e2: "?T2 = ?R2" by (simp add: defs)
  from transactionResponse_writes [OF e1] transactionResponse_writes [OF e2] e1 e2
  show ?thesis by simp
qed

end
